theory Spec2Isabelle
  imports Complex_Main
begin

section \<open>Common values\<close>

text \<open>
  Python exceptions and process exits that the modelled functions can raise.
  Floating-point numbers of the source are idealised as real numbers throughout.
\<close>

datatype py_error =
  IndexError | ValueError | AssertionError | AttributeError | ZeroDivisionError | SystemExit

type_synonym sample = "real list"

section \<open>Greedy sample clustering (scenarioBasedAbstraction.\_computeProbabilityBounds)\<close>

text \<open>
  \<open>np.linalg.norm(a - b)\<close> for two rows of the sample array: the Euclidean distance.
\<close>

definition norm_diff :: "sample \<Rightarrow> sample \<Rightarrow> real" where
  "norm_diff a b = sqrt (sum_list (map (\<lambda>(x, y). (x - y)\<^sup>2) (zip a b)))"

text \<open>Boolean-mask indexing \<open>xs[mask]\<close> of numpy.\<close>

definition mask_select :: "bool list \<Rightarrow> 'a list \<Rightarrow> 'a list" where
  "mask_select msk xs = map snd (filter fst (zip msk xs))"

text \<open>
  \<open>np.min(rows, axis=0)\<close> and \<open>np.max(rows, axis=0)\<close>: the per-column minimum and maximum of a
  two-dimensional array. numpy raises ValueError on an array without rows.
\<close>

definition np_min_axis0 :: "sample list \<Rightarrow> py_error + sample" where
  "np_min_axis0 rows = (case rows of [] \<Rightarrow> Inl ValueError
     | r # rs \<Rightarrow> Inr (foldl (\<lambda>acc row. map (\<lambda>(x, y). min x y) (zip acc row)) r rs))"

definition np_max_axis0 :: "sample list \<Rightarrow> py_error + sample" where
  "np_max_axis0 rows = (case rows of [] \<Rightarrow> Inl ValueError
     | r # rs \<Rightarrow> Inr (foldl (\<lambda>acc row. map (\<lambda>(x, y). max x y) (zip acc row)) r rs))"

record clusters =
  cl_value :: "nat list"
  cl_lb :: "sample list"
  cl_ub :: "sample list"

text \<open>\<open>distances < max_radius\<close>, the distances taken from the first remaining sample.\<close>

definition distances_below :: "real \<Rightarrow> sample list \<Rightarrow> bool list" where
  "distances_below max_radius remaining_samples =
     map (\<lambda>s. norm_diff (hd remaining_samples) s < max_radius) remaining_samples"

lemma mask_select_length_le: "length (mask_select m xs) \<le> length xs"
proof -
  have "length (mask_select m xs) \<le> length (zip m xs)"
    unfolding mask_select_def by (simp only: length_map length_filter_le)
  then show ?thesis by simp
qed

lemma mask_select_split:
  "length m = length xs \<Longrightarrow>
   length (mask_select m xs) + length (mask_select (map Not m) xs) = length xs"
proof (induction m arbitrary: xs)
  case Nil
  then show ?case by (simp add: mask_select_def)
next
  case (Cons b m)
  then obtain y ys where xs: "xs = y # ys" by (cases xs) auto
  with Cons.prems have "length m = length ys" by simp
  from Cons.IH [OF this] show ?case
    by (cases b) (simp_all add: xs mask_select_def)
qed

lemma mask_select_shrinks:
  assumes "length m = length xs" and "mask_select m xs \<noteq> []"
  shows "length (mask_select (map Not m) xs) < length xs"
proof -
  from assms(2) have "0 < length (mask_select m xs)" by simp
  with mask_select_split [OF assms(1)] show ?thesis by linarith
qed

text \<open>
  The \<open>while len(remaining_samples) > 0\<close> loop. The accumulator is \<open>clusters0\<close>; the index
  array \<open>remaining_samples_i\<close> is filtered with the same mask as the samples. When the mask
  selects no sample, \<open>np.min\<close> raises on the empty cluster.
\<close>

function cluster_loop ::
  "real \<Rightarrow> sample list \<Rightarrow> nat list \<Rightarrow> clusters \<Rightarrow> py_error + clusters" where
  "cluster_loop max_radius remaining_samples remaining_samples_i clusters0 =
     (if remaining_samples = [] then Inr clusters0
      else if mask_select (distances_below max_radius remaining_samples) remaining_samples = []
        then Inl ValueError
      else cluster_loop max_radius
        (mask_select (map Not (distances_below max_radius remaining_samples)) remaining_samples)
        (mask_select (map Not (distances_below max_radius remaining_samples)) remaining_samples_i)
        \<lparr>cl_value = cl_value clusters0 @
            [length (mask_select (distances_below max_radius remaining_samples)
                       remaining_samples_i)],
         cl_lb = cl_lb clusters0 @
            [projr (np_min_axis0 (mask_select (distances_below max_radius remaining_samples)
                       remaining_samples))],
         cl_ub = cl_ub clusters0 @
            [projr (np_max_axis0 (mask_select (distances_below max_radius remaining_samples)
                       remaining_samples))]\<rparr>)"
  by pat_completeness auto
termination
proof (relation "measure (\<lambda>(r, rem, rem_i, acc). length rem)")
  show "wf (measure (\<lambda>(r, rem, rem_i, acc). length rem))" by simp
next
  fix max_radius :: real and remaining_samples :: "sample list"
    and remaining_samples_i :: "nat list" and clusters0 :: clusters
  assume "mask_select (distances_below max_radius remaining_samples) remaining_samples \<noteq> []"
  moreover have "length (distances_below max_radius remaining_samples) = length remaining_samples"
    by (simp add: distances_below_def)
  ultimately have "length (mask_select (map Not (distances_below max_radius remaining_samples))
      remaining_samples) < length remaining_samples"
    by (rule mask_select_shrinks [rotated])
  then show "((max_radius,
      mask_select (map Not (distances_below max_radius remaining_samples)) remaining_samples,
      mask_select (map Not (distances_below max_radius remaining_samples)) remaining_samples_i,
      \<lparr>cl_value = cl_value clusters0 @
            [length (mask_select (distances_below max_radius remaining_samples)
                       remaining_samples_i)],
         cl_lb = cl_lb clusters0 @
            [projr (np_min_axis0 (mask_select (distances_below max_radius remaining_samples)
                       remaining_samples))],
         cl_ub = cl_ub clusters0 @
            [projr (np_max_axis0 (mask_select (distances_below max_radius remaining_samples)
                       remaining_samples))]\<rparr>),
      (max_radius, remaining_samples, remaining_samples_i, clusters0))
    \<in> measure (\<lambda>(r, rem, rem_i, acc). length rem)"
    by simp
qed

declare cluster_loop.simps [simp del]

text \<open>
  The clustering branch of \<open>_computeProbabilityBounds\<close> with its closing assertion, and the
  branch without clustering, where every sample is a cluster of its own.
\<close>

definition cluster_samples :: "real \<Rightarrow> sample list \<Rightarrow> nat \<Rightarrow> py_error + clusters" where
  "cluster_samples sample_clustering samples noise_samples =
     (if sample_clustering > 0 then
        (case cluster_loop sample_clustering samples [0..<length samples]
                \<lparr>cl_value = [], cl_lb = [], cl_ub = []\<rparr> of
           Inl e \<Rightarrow> Inl e
         | Inr clusters0 \<Rightarrow>
             if sum_list (cl_value clusters0) = noise_samples then Inr clusters0
             else Inl AssertionError)
      else Inr \<lparr>cl_value = replicate (length samples) 1, cl_lb = samples, cl_ub = samples\<rparr>)"

definition boxes_ok :: "real \<Rightarrow> nat \<Rightarrow> clusters \<Rightarrow> bool" where
  "boxes_ok r n c \<longleftrightarrow> length (cl_lb c) = length (cl_value c) \<and>
     length (cl_ub c) = length (cl_value c) \<and>
     (\<forall>i<length (cl_value c). \<forall>d<n.
        0 \<le> cl_ub c ! i ! d - cl_lb c ! i ! d \<and> cl_ub c ! i ! d - cl_lb c ! i ! d < 2 * r)"

section \<open>Rounding (numpy.round, commons.floor\_decimal)\<close>

text \<open>
  \<open>np.round(a, decimals)\<close> scales by \<open>10 ** decimals\<close>, rounds to the nearest integer with
  ties going to the even neighbour, and scales back.
\<close>

definition round_half_even :: "real \<Rightarrow> int" where
  "round_half_even x =
     (if x - of_int \<lfloor>x\<rfloor> < 1 / 2 then \<lfloor>x\<rfloor>
      else if 1 / 2 < x - of_int \<lfloor>x\<rfloor> then \<lfloor>x\<rfloor> + 1
      else if even \<lfloor>x\<rfloor> then \<lfloor>x\<rfloor> else \<lfloor>x\<rfloor> + 1)"

definition np_round :: "real \<Rightarrow> nat \<Rightarrow> real" where
  "np_round a decimals = of_int (round_half_even (a * 10 ^ decimals)) / 10 ^ decimals"

text \<open>\<open>floor_decimal(a, precision) = np.round(a - 0.5 * 10**(-precision), precision)\<close>.\<close>

definition floor_decimal :: "real \<Rightarrow> nat \<Rightarrow> real" where
  "floor_decimal a precision = np_round (a - 0.5 * (1 / 10 ^ precision)) precision"

section \<open>The scenario table\<close>

text \<open>
  \<open>trans['memory']\<close> is an array with one row \<open>(lower, upper)\<close> per number of discarded
  samples. Reading row \<open>k\<close> follows numpy: a negative \<open>k\<close> counts from the end, and a row
  that does not exist raises IndexError.
\<close>

type_synonym scenario_table = "(real \<times> real) list"

definition memory_at :: "scenario_table \<Rightarrow> int \<Rightarrow> py_error + (real \<times> real)" where
  "memory_at memory k =
     (if 0 \<le> k \<and> k < int (length memory) then Inr (memory ! nat k)
      else if k < 0 \<and> - int (length memory) \<le> k then Inr (memory ! nat (int (length memory) + k))
      else Inl IndexError)"

text \<open>Running a list of fallible computations: the first exception ends the run.\<close>

fun collect :: "('e + 'a) list \<Rightarrow> 'e + 'a list" where
  "collect [] = Inr []"
| "collect (Inl e # rest) = Inl e"
| "collect (Inr x # rest) = (case collect rest of Inl e \<Rightarrow> Inl e | Inr xs \<Rightarrow> Inr (x # xs))"

section \<open>Exact mode (compute\_probabilities.computeScenarioBounds\_sparse)\<close>

type_synonym center = "real list"

text \<open>
  The dictionary \<open>counts\<close> keeps its keys in the order of their first insertion; it is
  modelled as an association list. \<open>counts_incr\<close> is the body
  \<open>if idx in counts: counts[idx] += 1 else: counts[idx] = 1\<close>.
\<close>

fun counts_incr :: "int \<Rightarrow> (int \<times> int) list \<Rightarrow> (int \<times> int) list" where
  "counts_incr idx [] = [(idx, 1)]"
| "counts_incr idx ((i, c) # rest) =
     (if i = idx then (i, c + 1) # rest else (i, c) # counts_incr idx rest)"

text \<open>
  The loop \<open>for s in range(Nsamples)\<close> over the region centres of the samples
  (\<open>centers = computeRegionCenters(samples, partition_setup)\<close>, one row per sample; that
  function is not part of the sources at hand, so \<open>centers\<close> is an input). \<open>c_tuple\<close> is
  the dictionary \<open>partition['R']['c_tuple']\<close> from centre tuples to region indices. Reading
  \<open>centers[s]\<close> beyond the last row raises IndexError.
\<close>

fun count_samples ::
  "(center \<rightharpoonup> int) \<Rightarrow> center list \<Rightarrow> nat list \<Rightarrow> (int \<times> int) list
     \<Rightarrow> py_error + (int \<times> int) list" where
  "count_samples c_tuple centers [] counts = Inr counts"
| "count_samples c_tuple centers (s # ss) counts =
     (if s < length centers then
        (case c_tuple (centers ! s) of
           Some idx \<Rightarrow> count_samples c_tuple centers ss (counts_incr idx counts)
         | None \<Rightarrow> count_samples c_tuple centers ss counts)
      else Inl IndexError)"

text \<open>
  One pass of the loop over the non-zero bins: the row
  \<open>(successor_idxs[i], probability_low[i], probability_upp[i], probability_approx[i])\<close>.
\<close>

definition sparse_bin ::
  "int \<Rightarrow> scenario_table \<Rightarrow> int \<times> int \<Rightarrow> py_error + (int \<times> real \<times> real \<times> real)" where
  "sparse_bin Nsamples memory rc =
     (case rc of (region, count) \<Rightarrow>
        (if Nsamples - count > Nsamples then
           (case memory_at memory (Nsamples - count) of
              Inl e \<Rightarrow> Inl e
            | Inr m \<Rightarrow>
                if Nsamples = 0 then Inl ZeroDivisionError
                else Inr (region, 0, snd m, of_int count / of_int Nsamples))
         else
           (case memory_at memory (Nsamples - count) of
              Inl e \<Rightarrow> Inl e
            | Inr m \<Rightarrow>
                if Nsamples = 0 then Inl ZeroDivisionError
                else Inr (region, fst m, snd m, of_int count / of_int Nsamples))))"

record sparse_bounds =
  sp_counts :: "(int \<times> int) list"
  sp_deadlock_low :: real
  sp_deadlock_upp :: real
  sp_successor_idxs :: "int list"
  sp_probability_low :: "real list"
  sp_probability_upp :: "real list"
  sp_probability_approx :: "real list"

text \<open>Lines 53 to 102 of the function: the counts and the bounds before any rounding.\<close>

definition sparse_bounds_of ::
  "int \<Rightarrow> (center \<rightharpoonup> int) \<Rightarrow> scenario_table \<Rightarrow> center list \<Rightarrow> py_error + sparse_bounds" where
  "sparse_bounds_of Nsamples c_tuple memory centers =
     (case count_samples c_tuple centers [0..<nat Nsamples] [] of
        Inl e \<Rightarrow> Inl e
      | Inr counts \<Rightarrow>
         (case memory_at memory (Nsamples - sum_list (map snd counts)) of
            Inl e \<Rightarrow> Inl e
          | Inr m \<Rightarrow>
             (case (if Nsamples - sum_list (map snd counts) > Nsamples then Inr 1
                    else (case memory_at memory (Nsamples - sum_list (map snd counts)) of
                            Inl e \<Rightarrow> Inl e | Inr m0 \<Rightarrow> Inr (1 - fst m0))) of
                Inl e \<Rightarrow> Inl e
              | Inr deadlock_upp \<Rightarrow>
                 (case collect (map (sparse_bin Nsamples memory) counts) of
                    Inl e \<Rightarrow> Inl e
                  | Inr bins \<Rightarrow>
                      Inr \<lparr>sp_counts = counts,
                           sp_deadlock_low = 1 - snd m,
                           sp_deadlock_upp = deadlock_upp,
                           sp_successor_idxs = map fst bins,
                           sp_probability_low = map (\<lambda>b. fst (snd b)) bins,
                           sp_probability_upp = map (\<lambda>b. fst (snd (snd b))) bins,
                           sp_probability_approx = map (\<lambda>b. snd (snd (snd b))) bins\<rparr>))))"

text \<open>
  What the function returns. The strings of the source print the numbers kept here:
  \<open>interval_strings[i]\<close> is \<open>"[lb,ub]"\<close> for the pair \<open>rd_intervals ! i\<close>, and
  \<open>approx_strings[i]\<close> prints \<open>rd_approx ! i\<close>.
\<close>

record return_dict =
  rd_intervals :: "(real \<times> real) list"
  rd_successor_idxs :: "int list"
  rd_approx :: "real list"
  rd_deadlock_interval :: "real \<times> real"
  rd_deadlock_approx :: real

definition sparse_report :: "sparse_bounds \<Rightarrow> return_dict" where
  "sparse_report b =
     \<lparr>rd_intervals =
        map (\<lambda>(lb, ub). (floor_decimal (max (1 / 10000) lb) 5, floor_decimal (min 1 ub) 5))
          (zip (map (\<lambda>p. floor_decimal p 5) (sp_probability_low b))
               (map (\<lambda>p. floor_decimal p 5) (sp_probability_upp b))),
      rd_successor_idxs = sp_successor_idxs b,
      rd_approx = map (\<lambda>p. np_round p 5) (sp_probability_approx b),
      rd_deadlock_interval =
        (floor_decimal (max (1 / 10000) (floor_decimal (sp_deadlock_low b) 5)) 5,
         floor_decimal (min 1 (floor_decimal (sp_deadlock_upp b) 5)) 5),
      rd_deadlock_approx =
        np_round (1 - sum_list (map (\<lambda>p. np_round p 5) (sp_probability_approx b))) 5\<rparr>"

definition computeScenarioBounds_sparse ::
  "int \<Rightarrow> (center \<rightharpoonup> int) \<Rightarrow> scenario_table \<Rightarrow> center list \<Rightarrow> py_error + return_dict" where
  "computeScenarioBounds_sparse Nsamples c_tuple memory centers =
     (case sparse_bounds_of Nsamples c_tuple memory centers of
        Inl e \<Rightarrow> Inl e
      | Inr b \<Rightarrow> Inr (sparse_report b))"

text \<open>The count that the dictionary \<open>counts\<close> holds for a region (0 for an absent key).\<close>

definition count_of :: "(int \<times> int) list \<Rightarrow> int \<Rightarrow> int" where
  "count_of counts r = (case map_of counts r of None \<Rightarrow> 0 | Some c \<Rightarrow> c)"

section \<open>Interval mode (compute\_probabilities.computeScenarioBounds\_error)\<close>

text \<open>
  A tuple of grid indices, one per dimension of the partition.
\<close>

type_synonym idx = "int list"

text \<open>
  The function works on parallel arrays with one entry per cluster: \<open>clusters['value']\<close>
  and the four index arrays \<open>imin, iMin = computeRegionIdx(clusters['lb'] + error['neg'])\<close>
  and \<open>imax, iMax = computeRegionIdx(clusters['ub'] + error['pos'], borderOutside=...)\<close>.
  \<open>computeRegionIdx\<close> is not part of the sources at hand, so its four results are inputs:
  \<open>imin\<close>, \<open>imax\<close> are the grid indices of the two corners of a cluster's box as they
  are, \<open>iMin\<close>, \<open>iMax\<close> the same indices clipped to the grid. The model keeps the
  parallel arrays as one row per cluster.
\<close>

record cluster_row =
  cr_value :: int
  cr_imin :: idx
  cr_imax :: idx
  cr_iMin :: idx
  cr_iMax :: idx

text \<open>
  The Boolean masks, for one cluster; \<open>nrPerDim\<close> is \<open>partition_setup['number']\<close>.
  \<open>+\<close> and \<open>*\<close> on Boolean arrays are \<open>or\<close> and \<open>and\<close>.
\<close>

definition fully_out :: "int list \<Rightarrow> cluster_row \<Rightarrow> bool" where
  "fully_out nrPerDim r \<longleftrightarrow>
     list_ex (\<lambda>i. i < 0) (cr_imax r) \<or>
     list_ex (\<lambda>(i, n). i > n - 1) (zip (cr_imin r) nrPerDim)"

definition partially_out :: "int list \<Rightarrow> cluster_row \<Rightarrow> bool" where
  "partially_out nrPerDim r \<longleftrightarrow>
     list_ex (\<lambda>i. i < 0) (cr_imin r) \<or>
     list_ex (\<lambda>(i, n). i > n - 1) (zip (cr_imax r) nrPerDim)"

definition in_single_region :: "int list \<Rightarrow> cluster_row \<Rightarrow> bool" where
  "in_single_region nrPerDim r \<longleftrightarrow>
     list_all (\<lambda>(a, b). a = b) (zip (cr_imin r) (cr_imax r)) \<and> \<not> fully_out nrPerDim r"

definition keep :: "int list \<Rightarrow> cluster_row \<Rightarrow> bool" where
  "keep nrPerDim r \<longleftrightarrow> \<not> in_single_region nrPerDim r \<and> \<not> fully_out nrPerDim r"

text \<open>
  The counters of the function. The arrays \<open>counts_low\<close> and \<open>counts_upp\<close> (of shape
  \<open>partition_setup['number']\<close>, initially zero) are functions of the index tuple.
\<close>

record counts_state =
  counts_low :: "idx \<Rightarrow> int"
  counts_upp :: "idx \<Rightarrow> int"
  counts_absorb_low :: int
  counts_absorb_upp :: int
  counts_goal_low :: int
  counts_goal_upp :: int
  counts_critical_low :: int
  counts_critical_upp :: int

text \<open>
  Addressing one cell of an array of the given shape by a tuple with one integer per
  dimension: numpy counts a negative index from the end and raises IndexError outside
  the array.
\<close>

definition nd_index :: "int list \<Rightarrow> idx \<Rightarrow> py_error + idx" where
  "nd_index shape key =
     (if length key = length shape \<and> list_all (\<lambda>(k, n). - n \<le> k \<and> k < n) (zip key shape)
      then Inr (map (\<lambda>(k, n). if k < 0 then k + n else k) (zip key shape))
      else Inl IndexError)"

text \<open>
  The loop over the clusters known to lie in a single region:
  \<open>for key, val in zip(imin[in_single_region], clusters['value'][in_single_region])\<close>.
\<close>

fun single_loop ::
  "idx set \<Rightarrow> idx set \<Rightarrow> int list \<Rightarrow> (idx \<times> int) list \<Rightarrow> counts_state
     \<Rightarrow> py_error + counts_state" where
  "single_loop goal_idx critical_idx shape [] st = Inr st"
| "single_loop goal_idx critical_idx shape ((key, val) # rest) st =
     (if key \<in> goal_idx then
        single_loop goal_idx critical_idx shape rest
          (st\<lparr>counts_goal_low := counts_goal_low st + val,
              counts_goal_upp := counts_goal_upp st + val\<rparr>)
      else if key \<in> critical_idx then
        single_loop goal_idx critical_idx shape rest
          (st\<lparr>counts_critical_low := counts_critical_low st + val,
              counts_critical_upp := counts_critical_upp st + val\<rparr>)
      else
        (case nd_index shape key of
           Inl e \<Rightarrow> Inl e
         | Inr k \<Rightarrow>
             single_loop goal_idx critical_idx shape rest
               (st\<lparr>counts_low := (counts_low st)(k := counts_low st k + val),
                   counts_upp := (counts_upp st)(k := counts_upp st k + val)\<rparr>)))"

text \<open>
  \<open>slice(start, stop)\<close> on an axis of length \<open>n\<close> selects the indices from
  \<open>slice_bound n start\<close> up to, not including, \<open>slice_bound n stop\<close>.
\<close>

definition slice_bound :: "int \<Rightarrow> int \<Rightarrow> int" where
  "slice_bound n i = (if i < 0 then max (i + n) 0 else min i n)"

definition slice_indices :: "int \<Rightarrow> int \<Rightarrow> int \<Rightarrow> int list" where
  "slice_indices n start stop = [slice_bound n start .. slice_bound n stop - 1]"

text \<open>
  The cells addressed by \<open>counts_upp[tuple(map(slice, lo, hi + 1))]\<close>; an axis without a
  slice of its own is selected whole.
\<close>

definition in_slices :: "int list \<Rightarrow> idx \<Rightarrow> idx \<Rightarrow> idx \<Rightarrow> bool" where
  "in_slices shape lo hi key \<longleftrightarrow>
     length key = length shape \<and>
     list_all (\<lambda>(k, n, a, b). k \<in> set (slice_indices n a (b + 1)))
       (zip key (zip shape (zip lo hi)))"

text \<open>\<open>set(itertools.product(*map(range, lo, hi + 1)))\<close>.\<close>

definition index_tuples :: "idx \<Rightarrow> idx \<Rightarrow> idx set" where
  "index_tuples lo hi = set (product_lists (map (\<lambda>(a, b). [a .. b]) (zip lo hi)))"

text \<open>
  The body of the loop \<open>for x, c in enumerate(c_rem)\<close> over the remaining clusters.
  As in the source, the index arrays of the remaining clusters and the mask
  \<open>partially_out\<close> are read at the position \<open>x\<close> of the enumeration, the cluster sizes at
  the cluster number \<open>c\<close>.
\<close>

definition rem_step ::
  "idx set \<Rightarrow> idx set \<Rightarrow> int list \<Rightarrow> int list \<Rightarrow> idx list \<Rightarrow> idx list \<Rightarrow> bool list
     \<Rightarrow> nat \<times> nat \<Rightarrow> counts_state \<Rightarrow> counts_state" where
  "rem_step goal_idx critical_idx shape values iMin_rem iMax_rem partially_out_mask xc st =
     (case xc of (x, c) \<Rightarrow>
        let st1 = st\<lparr>counts_upp := (\<lambda>key.
                      if in_slices shape (iMin_rem ! x) (iMax_rem ! x) key
                      then counts_upp st key + values ! c else counts_upp st key)\<rparr>;
            tuples = index_tuples (iMin_rem ! x) (iMax_rem ! x)
        in
          if tuples \<subseteq> goal_idx \<and> \<not> partially_out_mask ! x then
            st1\<lparr>counts_goal_low := counts_goal_low st1 + values ! c,
                counts_goal_upp := counts_goal_upp st1 + values ! c\<rparr>
          else if tuples \<subseteq> critical_idx \<and> \<not> partially_out_mask ! x then
            st1\<lparr>counts_critical_low := counts_critical_low st1 + values ! c,
                counts_critical_upp := counts_critical_upp st1 + values ! c\<rparr>
          else
            let st2 = (if tuples \<inter> goal_idx \<noteq> {}
                       then st1\<lparr>counts_goal_upp := counts_goal_upp st1 + values ! c\<rparr>
                       else st1)
            in if tuples \<inter> critical_idx \<noteq> {}
               then st2\<lparr>counts_critical_upp := counts_critical_upp st2 + values ! c\<rparr>
               else st2)"

text \<open>Lines 176 to 290: all counters after the two loops.\<close>

definition classify ::
  "idx set \<Rightarrow> idx set \<Rightarrow> int list \<Rightarrow> cluster_row list \<Rightarrow> py_error + counts_state" where
  "classify goal_idx critical_idx nrPerDim rows =
     (case single_loop goal_idx critical_idx nrPerDim
             (zip (mask_select (map (in_single_region nrPerDim) rows) (map cr_imin rows))
                  (mask_select (map (in_single_region nrPerDim) rows) (map cr_value rows)))
             \<lparr>counts_low = (\<lambda>key. 0), counts_upp = (\<lambda>key. 0),
              counts_absorb_low =
                sum_list (mask_select (map (fully_out nrPerDim) rows) (map cr_value rows)),
              counts_absorb_upp =
                sum_list (mask_select (map (partially_out nrPerDim) rows) (map cr_value rows)),
              counts_goal_low = 0, counts_goal_upp = 0,
              counts_critical_low = 0, counts_critical_upp = 0\<rparr> of
        Inl e \<Rightarrow> Inl e
      | Inr st \<Rightarrow>
          Inr (fold
            (rem_step goal_idx critical_idx nrPerDim (map cr_value rows)
               (mask_select (map (keep nrPerDim) rows) (map cr_iMin rows))
               (mask_select (map (keep nrPerDim) rows) (map cr_iMax rows))
               (map (partially_out nrPerDim) rows))
            (List.enumerate 0 (mask_select (map (keep nrPerDim) rows) [0..<length rows]))
            st))"

text \<open>\<open>np.ndenumerate\<close> visits the cells of an array in row-major order.\<close>

definition all_indices :: "int list \<Rightarrow> idx list" where
  "all_indices shape = product_lists (map (\<lambda>n. [0 .. n - 1]) shape)"

text \<open>
  The array \<open>counts\<close>: the rows \<open>[successor, lower count, upper count]\<close>, the critical
  and the goal bucket first (successors -2 and -1). \<open>R_idx\<close> is the dictionary
  \<open>partition['R']['idx']\<close> from index tuples to region numbers.
\<close>

definition counts_table ::
  "idx set \<Rightarrow> idx set \<Rightarrow> (idx \<Rightarrow> int) \<Rightarrow> int list \<Rightarrow> counts_state
     \<Rightarrow> (int \<times> int \<times> int) list" where
  "counts_table goal_idx critical_idx R_idx nrPerDim st =
     (if critical_idx \<noteq> {} then [(- 2, counts_critical_low st, counts_critical_upp st)] else []) @
     (if goal_idx \<noteq> {} then [(- 1, counts_goal_low st, counts_goal_upp st)] else []) @
     map (\<lambda>key. (R_idx key, counts_low st key, counts_upp st key))
       (filter (\<lambda>key. counts_upp st key > 0 \<and> key \<notin> goal_idx \<and> key \<notin> critical_idx)
          (all_indices nrPerDim))"

text \<open>The Hoeffding term of lines 187 and 188.\<close>

definition epsilon :: "int \<Rightarrow> real \<Rightarrow> real" where
  "epsilon Nsamples confidence = sqrt (1 / (2 * of_int Nsamples) * ln (2 / confidence))"

record error_bounds =
  eb_counts :: "(int \<times> int \<times> int) list"
  eb_deadlock_low :: real
  eb_deadlock_upp :: real
  eb_successor_idxs :: "int list"
  eb_probability_low :: "real list"
  eb_probability_upp :: "real list"
  eb_probability_approx :: "real list"

text \<open>
  Lines 173 to 329: the counts and the bounds before any rounding. Python raises
  ZeroDivisionError on \<open>1/(2*Nsamples)\<close> and on \<open>2/confidence\<close> for a zero divisor.
\<close>

definition error_bounds_of ::
  "int \<Rightarrow> real \<Rightarrow> idx set \<Rightarrow> idx set \<Rightarrow> (idx \<Rightarrow> int) \<Rightarrow> int list \<Rightarrow> scenario_table
     \<Rightarrow> cluster_row list \<Rightarrow> py_error + error_bounds" where
  "error_bounds_of Nsamples confidence goal_idx critical_idx R_idx nrPerDim memory rows =
     (if Nsamples = 0 \<or> confidence = 0 then Inl ZeroDivisionError
      else
        (case classify goal_idx critical_idx nrPerDim rows of
           Inl e \<Rightarrow> Inl e
         | Inr st \<Rightarrow>
            (case memory_at memory (counts_absorb_upp st) of
               Inl e \<Rightarrow> Inl e
             | Inr m \<Rightarrow>
                (case collect (map (\<lambda>(s, cl, cu). memory_at memory (min (Nsamples - cl) Nsamples))
                         (counts_table goal_idx critical_idx R_idx nrPerDim st)) of
                   Inl e \<Rightarrow> Inl e
                 | Inr ms \<Rightarrow>
                     Inr \<lparr>eb_counts = counts_table goal_idx critical_idx R_idx nrPerDim st,
                          eb_deadlock_low =
                            max 0 (of_int (counts_absorb_low st) / of_int Nsamples
                                     - epsilon Nsamples confidence),
                          eb_deadlock_upp = 1 - fst m,
                          eb_successor_idxs =
                            map fst (counts_table goal_idx critical_idx R_idx nrPerDim st),
                          eb_probability_low = map fst ms,
                          eb_probability_upp =
                            map (\<lambda>(s, cl, cu).
                                   min 1 (of_int cu / of_int Nsamples + epsilon Nsamples confidence))
                              (counts_table goal_idx critical_idx R_idx nrPerDim st),
                          eb_probability_approx =
                            map (\<lambda>(s, cl, cu). (of_int cl + of_int cu) / 2 / of_int Nsamples)
                              (counts_table goal_idx critical_idx R_idx nrPerDim st)\<rparr>))))"

text \<open>Lines 331 to 369: rounding, clamping and the returned dictionary.\<close>

definition error_report :: "error_bounds \<Rightarrow> return_dict" where
  "error_report b =
     \<lparr>rd_intervals =
        zip (map (\<lambda>p. max (1 / 10000) (floor_decimal p 5)) (eb_probability_low b))
            (map (\<lambda>p. min 1 (floor_decimal p 5)) (eb_probability_upp b)),
      rd_successor_idxs = eb_successor_idxs b,
      rd_approx = map (\<lambda>p. np_round p 5) (eb_probability_approx b),
      rd_deadlock_interval =
        (max (1 / 10000) (floor_decimal (eb_deadlock_low b) 5),
         min 1 (floor_decimal (eb_deadlock_upp b) 5)),
      rd_deadlock_approx =
        np_round (1 - sum_list (map (\<lambda>p. np_round p 5) (eb_probability_approx b))) 5\<rparr>"

definition computeScenarioBounds_error ::
  "int \<Rightarrow> real \<Rightarrow> idx set \<Rightarrow> idx set \<Rightarrow> (idx \<Rightarrow> int) \<Rightarrow> int list \<Rightarrow> scenario_table
     \<Rightarrow> cluster_row list \<Rightarrow> py_error + return_dict" where
  "computeScenarioBounds_error Nsamples confidence goal_idx critical_idx R_idx nrPerDim memory rows =
     (case error_bounds_of Nsamples confidence goal_idx critical_idx R_idx nrPerDim memory rows of
        Inl e \<Rightarrow> Inl e
      | Inr b \<Rightarrow> Inr (error_report b))"

section \<open>Re-import of the solver results (Abstraction.loadPRISMresults)\<close>

text \<open>
  A cell of the policy table as \<open>pd.read_csv(policy_file, header=None)\<close> delivers it: a
  string, a number, or nothing (NaN, here \<open>None\<close>). \<open>fillna(-1)\<close> puts the number -1 into
  the empty cells.
\<close>

datatype cell = Text string | Number int

definition fillna :: "cell option \<Rightarrow> cell" where
  "fillna v = (case v of None \<Rightarrow> Number (- 1) | Some c \<Rightarrow> c)"

text \<open>\<open>s.split(sep)\<close> for a separator of one character.\<close>

fun split_on :: "char \<Rightarrow> string \<Rightarrow> string list" where
  "split_on sep [] = [[]]"
| "split_on sep (c # cs) =
     (if c = sep then [] # split_on sep cs
      else (case split_on sep cs of [] \<Rightarrow> [[c]] | p # ps \<Rightarrow> (c # p) # ps))"

text \<open>
  \<open>int(s)\<close> for a string: blanks around the number are dropped, a sign may lead, and one
  decimal digit or more must follow; anything else raises ValueError. (Python also accepts
  single underscores between digits, which cannot occur in a piece of a string split at
  underscores, and digits outside ASCII, which are not modelled.)
\<close>

definition is_space :: "char \<Rightarrow> bool" where
  "is_space c \<longleftrightarrow> c \<in> set [CHR '' '', CHR 0x09, CHR 0x0A, CHR 0x0B, CHR 0x0C, CHR 0x0D]"

definition strip :: "string \<Rightarrow> string" where
  "strip s = rev (dropWhile is_space (rev (dropWhile is_space s)))"

definition is_digit :: "char \<Rightarrow> bool" where
  "is_digit c \<longleftrightarrow> (48::nat) \<le> of_char c \<and> (of_char c :: nat) \<le> 57"

definition digits_value :: "string \<Rightarrow> nat option" where
  "digits_value s =
     (if s = [] \<or> \<not> list_all is_digit s then None
      else Some (foldl (\<lambda>a c. 10 * a + (of_char c - 48)) 0 s))"

definition py_int :: "string \<Rightarrow> py_error + int" where
  "py_int s =
     (case strip s of
        [] \<Rightarrow> Inl ValueError
      | c # ds \<Rightarrow>
          if c = CHR ''-'' then
            (case digits_value ds of None \<Rightarrow> Inl ValueError | Some n \<Rightarrow> Inr (- int n))
          else if c = CHR ''+'' then
            (case digits_value ds of None \<Rightarrow> Inl ValueError | Some n \<Rightarrow> Inr (int n))
          else
            (case digits_value (c # ds) of None \<Rightarrow> Inl ValueError | Some n \<Rightarrow> Inr (int n)))"

text \<open>
  The body of the double loop over the policy table: a value other than -1 is split at
  the underscores and its second piece is the action number (a number has no \<open>split\<close>,
  a string without underscore has no second piece); the value -1 stays -1.
\<close>

definition policy_entry :: "cell \<Rightarrow> py_error + int" where
  "policy_entry v =
     (case v of
        Number n \<Rightarrow> if n \<noteq> - 1 then Inl AttributeError else Inr n
      | Text s \<Rightarrow>
          (case split_on CHR ''_'' s of
             a # b # rest \<Rightarrow> py_int b
           | _ \<Rightarrow> Inl IndexError))"

record prism_results =
  optimal_policy :: "int list list"
  optimal_reward :: "real list"

text \<open>
  \<open>problem_type\<close> is the truth value of \<open>self.spec.problem_type\<close> (set outside the sources
  at hand). The policy table has one row per time step and one column per state after the
  first three columns; the vector file has one row per state after the first three rows.
\<close>

definition loadPRISMresults ::
  "bool \<Rightarrow> cell option list list \<Rightarrow> real list list \<Rightarrow> py_error + prism_results" where
  "loadPRISMresults problem_type policy_file vector_file =
     (case collect (map (\<lambda>row. collect (map policy_entry row))
                     (rev (map (\<lambda>row. map fillna (drop 3 row)) policy_file))) of
        Inl e \<Rightarrow> Inl e
      | Inr policy \<Rightarrow>
          Inr \<lparr>optimal_policy = policy,
               optimal_reward =
                 (if problem_type then map (\<lambda>v. 1 - v) (concat (drop 3 vector_file))
                  else concat (drop 3 vector_file))\<rparr>)"

section \<open>Enabled actions (Abstraction.define\_actions)\<close>

text \<open>
  Regions and actions are numbered; \<open>enabled_in\<close> gives, for an action number, the set
  \<open>act.enabled_in\<close> of regions in which the action is enabled. The geometric tests are not
  part of the sources at hand: the composition of the per-dimension results delivers, for
  every composed action, its number and the list \<open>s_enabledin\<close> of candidate regions
  (\<open>entries\<close>), and \<open>lp_solve act s\<close> is the outcome of \<open>LP.solve\<close> for an extra action and
  a region.
\<close>

text \<open>
  The inner loop of \<open>_composeEnabledActions\<close>: \<open>for s in s_enabledin\<close>, skipping critical
  regions.
\<close>

definition add_states :: "nat set \<Rightarrow> nat list \<Rightarrow> nat set \<Rightarrow> nat set" where
  "add_states critical s_enabledin enabled =
     fold (\<lambda>state e. if state \<in> critical then e else insert state e) s_enabledin enabled"

text \<open>
  The outer loop of \<open>_composeEnabledActions\<close> with its counter:
  \<open>if len(act_obj.enabled_in) > 0: nr_act += 1\<close>.
\<close>

fun compose_loop ::
  "nat set \<Rightarrow> (nat \<times> nat list) list \<Rightarrow> (nat \<Rightarrow> nat set) \<Rightarrow> int
     \<Rightarrow> (nat \<Rightarrow> nat set) \<times> int" where
  "compose_loop critical [] enabled_in nr_act = (enabled_in, nr_act)"
| "compose_loop critical ((act_idx, s_enabledin) # rest) enabled_in nr_act =
     compose_loop critical rest
       (enabled_in(act_idx := add_states critical s_enabledin (enabled_in act_idx)))
       (if add_states critical s_enabledin (enabled_in act_idx) \<noteq> {} then nr_act + 1
        else nr_act)"

text \<open>
  The loop over the extra actions in \<open>define_actions\<close>: every region that is not critical
  and passes the feasibility test is added.
\<close>

definition extra_loop ::
  "nat set \<Rightarrow> nat \<Rightarrow> (nat \<Rightarrow> nat \<Rightarrow> bool) \<Rightarrow> nat list \<Rightarrow> (nat \<Rightarrow> nat set)
     \<Rightarrow> (nat \<Rightarrow> nat set)" where
  "extra_loop critical nr_regions lp_solve extra_act enabled_in =
     fold (\<lambda>act en. en(act :=
             fold (\<lambda>s_min e. if s_min \<in> critical then e
                             else if lp_solve act s_min then insert s_min e else e)
               [0..<nr_regions] (en act)))
       extra_act enabled_in"

text \<open>
  What \<open>define_actions\<close> writes at its end (\<open>print(nr_act, 'actions enabled')\<close> and the
  warning) and how it ends: \<open>sys.exit()\<close> raises SystemExit, which nothing in the
  sources catches.
\<close>

datatype console_line = Actions_enabled int | Warning string

definition define_actions ::
  "nat set \<Rightarrow> nat \<Rightarrow> (nat \<times> nat list) list \<Rightarrow> (nat \<Rightarrow> nat \<Rightarrow> bool) \<Rightarrow> nat list
     \<Rightarrow> (nat \<Rightarrow> nat set) \<Rightarrow> console_line list \<times> (py_error + (nat \<Rightarrow> nat set))" where
  "define_actions critical nr_regions entries lp_solve extra_act enabled_in =
     (case compose_loop critical entries enabled_in 0 of
        (composed, nr_act) \<Rightarrow>
          if nr_act = 0 then
            ([Actions_enabled nr_act, Warning ''No actions enabled at all, so terminate''],
             Inl SystemExit)
          else
            ([Actions_enabled nr_act],
             Inr (extra_loop critical nr_regions lp_solve extra_act composed)))"

section \<open>Properties of the greedy clustering\<close>

lemma norm_diff_self: "norm_diff a a = 0"
proof -
  have "sum_list (map (\<lambda>(x, y). (x - y)\<^sup>2) (zip a a)) = (0::real)"
    by (induction a) simp_all
  then show ?thesis by (simp add: norm_diff_def)
qed

lemma mask_select_length_count:
  "length m = length xs \<Longrightarrow> length (mask_select m xs) = length (filter id m)"
proof (induction m arbitrary: xs)
  case Nil
  then show ?case by (simp add: mask_select_def)
next
  case (Cons b m)
  then obtain y ys where xs: "xs = y # ys" by (cases xs) auto
  with Cons.prems have "length m = length ys" by simp
  from Cons.IH [OF this] show ?case
    by (simp add: xs mask_select_def)
qed

lemma distances_below_length:
  "length (distances_below r rem) = length rem"
  by (simp add: distances_below_def)

lemma first_sample_selected:
  assumes "0 < r" and "rem \<noteq> []"
  shows "mask_select (distances_below r rem) rem \<noteq> []"
proof -
  from assms(2) obtain s ss where rem: "rem = s # ss" by (cases rem) auto
  show ?thesis
    using assms(1) by (simp add: rem distances_below_def mask_select_def norm_diff_self)
qed

lemma cluster_loop_sum:
  assumes "0 < r" and "length rem_i = length rem"
  shows "\<exists>c. cluster_loop r rem rem_i acc = Inr c \<and>
     sum_list (cl_value c) = sum_list (cl_value acc) + length rem"
  using assms
proof (induction r rem rem_i acc rule: cluster_loop.induct)
  case (1 r rem rem_i acc)
  show ?case
  proof (cases "rem = []")
    case True
    then show ?thesis by (simp add: cluster_loop.simps)
  next
    case False
    let ?b = "distances_below r rem"
    have sel: "mask_select ?b rem \<noteq> []"
      using first_sample_selected [OF "1.prems"(1) False] .
    have len: "length (mask_select (map Not ?b) rem_i) = length (mask_select (map Not ?b) rem)"
      using "1.prems"(2) by (simp add: mask_select_length_count distances_below_length)
    have cnt: "length (mask_select ?b rem_i) = length (mask_select ?b rem)"
      using "1.prems"(2) by (simp add: mask_select_length_count distances_below_length)
    have split: "length (mask_select ?b rem) + length (mask_select (map Not ?b) rem) = length rem"
      by (rule mask_select_split) (simp add: distances_below_length)
    from "1.IH" [OF False sel "1.prems"(1) len]
    obtain c where c: "cluster_loop r (mask_select (map Not ?b) rem) (mask_select (map Not ?b) rem_i)
        \<lparr>cl_value = cl_value acc @ [length (mask_select ?b rem_i)],
         cl_lb = cl_lb acc @ [projr (np_min_axis0 (mask_select ?b rem))],
         cl_ub = cl_ub acc @ [projr (np_max_axis0 (mask_select ?b rem))]\<rparr> = Inr c"
      and s: "sum_list (cl_value c) = sum_list (cl_value acc @ [length (mask_select ?b rem_i)])
          + length (mask_select (map Not ?b) rem)"
      by auto
    have "cluster_loop r rem rem_i acc = Inr c"
      using False sel c by (subst cluster_loop.simps) simp
    moreover have "sum_list (cl_value c) = sum_list (cl_value acc) + length rem"
      using s cnt split by simp
    ultimately show ?thesis by blast
  qed
qed


lemma mask_select_filter: "mask_select (map P xs) xs = filter P xs"
  by (induction xs) (simp_all add: mask_select_def)

lemma square_le_sum_list:
  "d < length ps \<Longrightarrow>
   (fst (ps ! d) - snd (ps ! d))\<^sup>2 \<le> sum_list (map (\<lambda>(x, y). (x - y)\<^sup>2) ps)"
  for ps :: "(real \<times> real) list"
proof (induction ps arbitrary: d)
  case Nil
  then show ?case by simp
next
  case (Cons p ps)
  have nonneg: "0 \<le> sum_list (map (\<lambda>(x, y). (x - y)\<^sup>2) ps)"
    by (rule sum_list_nonneg) auto
  show ?case
  proof (cases d)
    case 0
    then show ?thesis using nonneg by (cases p) simp
  next
    case (Suc k)
    with Cons.prems have "k < length ps" by simp
    from Cons.IH [OF this] show ?thesis
      by (cases p) (simp add: Suc add_increasing)
  qed
qed

lemma coord_le_norm_diff:
  assumes "d < length a" and "d < length b"
  shows "\<bar>a ! d - b ! d\<bar> \<le> norm_diff a b"
proof -
  have "d < length (zip a b)" using assms by simp
  from square_le_sum_list [OF this] assms
  have "(a ! d - b ! d)\<^sup>2 \<le> sum_list (map (\<lambda>(x, y). (x - y)\<^sup>2) (zip a b))" by simp
  then have "\<bar>a ! d - b ! d\<bar>\<^sup>2 \<le> sum_list (map (\<lambda>(x, y). (x - y)\<^sup>2) (zip a b))" by simp
  then show ?thesis unfolding norm_diff_def by (rule real_le_rsqrt)
qed

lemma fold_min_bounds:
  assumes "length acc = n" and "\<forall>row\<in>set rs. length row = n" and "d < n"
    and "(L::real) < acc ! d" and "\<forall>row\<in>set rs. L < row ! d"
  shows "L < foldl (\<lambda>acc row. map (\<lambda>(x, y). min x y) (zip acc row)) acc rs ! d \<and>
         foldl (\<lambda>acc row. map (\<lambda>(x, y). min x y) (zip acc row)) acc rs ! d \<le> acc ! d"
  using assms
proof (induction rs arbitrary: acc)
  case Nil
  then show ?case by simp
next
  case (Cons row rs)
  let ?acc = "map (\<lambda>(x, y). min x y) (zip acc row)"
  have len: "length ?acc = n" using Cons.prems by simp
  have at: "?acc ! d = min (acc ! d) (row ! d)" using Cons.prems by simp
  have "L < ?acc ! d" using Cons.prems at by simp
  from Cons.IH [OF len _ \<open>d < n\<close> this] Cons.prems
  show ?case using at by fastforce
qed

lemma fold_max_bounds:
  assumes "length acc = n" and "\<forall>row\<in>set rs. length row = n" and "d < n"
    and "acc ! d < (U::real)" and "\<forall>row\<in>set rs. row ! d < U"
  shows "foldl (\<lambda>acc row. map (\<lambda>(x, y). max x y) (zip acc row)) acc rs ! d < U \<and>
         acc ! d \<le> foldl (\<lambda>acc row. map (\<lambda>(x, y). max x y) (zip acc row)) acc rs ! d"
  using assms
proof (induction rs arbitrary: acc)
  case Nil
  then show ?case by simp
next
  case (Cons row rs)
  let ?acc = "map (\<lambda>(x, y). max x y) (zip acc row)"
  have len: "length ?acc = n" using Cons.prems by simp
  have at: "?acc ! d = max (acc ! d) (row ! d)" using Cons.prems by simp
  have "?acc ! d < U" using Cons.prems at by simp
  from Cons.IH [OF len _ \<open>d < n\<close> this] Cons.prems
  show ?case using at by fastforce
qed

text \<open>The bounding box of one cluster: the samples within distance r of a centre c.\<close>

lemma cluster_box_side:
  assumes "0 < r" and "rem \<noteq> []" and "\<forall>s\<in>set rem. length s = n" and "d < n"
  shows "0 \<le> projr (np_max_axis0 (mask_select (distances_below r rem) rem)) ! d
           - projr (np_min_axis0 (mask_select (distances_below r rem) rem)) ! d \<and>
         projr (np_max_axis0 (mask_select (distances_below r rem) rem)) ! d
           - projr (np_min_axis0 (mask_select (distances_below r rem) rem)) ! d < 2 * r"
proof -
  from assms(2) obtain c cs where rem: "rem = c # cs" by (cases rem) auto
  let ?P = "\<lambda>s. norm_diff c s < r"
  have sel: "mask_select (distances_below r rem) rem = c # filter ?P cs"
    using assms(1) mask_select_filter [of ?P rem]
    by (simp add: distances_below_def rem norm_diff_self)
  have lenc: "length c = n" using assms(3) rem by simp
  have lens: "\<forall>row\<in>set (filter ?P cs). length row = n" using assms(3) rem by simp
  have near: "\<bar>c ! d - s ! d\<bar> < r" if "s \<in> set (filter ?P cs)" for s
  proof -
    from that have "length s = n" and "norm_diff c s < r" using lens by auto
    with coord_le_norm_diff [of d c s] lenc assms(4) show ?thesis by simp
  qed
  have lo: "\<forall>row\<in>set (filter ?P cs). c ! d - r < row ! d"
  proof
    fix row assume "row \<in> set (filter ?P cs)"
    from near [OF this] show "c ! d - r < row ! d" by linarith
  qed
  have hi: "\<forall>row\<in>set (filter ?P cs). row ! d < c ! d + r"
  proof
    fix row assume "row \<in> set (filter ?P cs)"
    from near [OF this] show "row ! d < c ! d + r" by linarith
  qed
  have "c ! d - r < c ! d" and "c ! d < c ! d + r" using assms(1) by simp_all
  from fold_min_bounds [OF lenc lens assms(4) this(1) lo]
       fold_max_bounds [OF lenc lens assms(4) this(2) hi]
  show ?thesis
    by (simp add: sel np_min_axis0_def np_max_axis0_def)
qed

lemma cluster_loop_boxes:
  assumes "0 < r" and "\<forall>s\<in>set rem. length s = n" and "boxes_ok r n acc"
    and "cluster_loop r rem rem_i acc = Inr c"
  shows "boxes_ok r n c"
  using assms
proof (induction r rem rem_i acc rule: cluster_loop.induct)
  case (1 r rem rem_i acc)
  show ?case
  proof (cases "rem = []")
    case True
    with "1.prems" show ?thesis by (simp add: cluster_loop.simps)
  next
    case False
    let ?b = "distances_below r rem"
    let ?acc = "\<lparr>cl_value = cl_value acc @ [length (mask_select ?b rem_i)],
         cl_lb = cl_lb acc @ [projr (np_min_axis0 (mask_select ?b rem))],
         cl_ub = cl_ub acc @ [projr (np_max_axis0 (mask_select ?b rem))]\<rparr>"
    have sel: "mask_select ?b rem \<noteq> []"
      using first_sample_selected [OF "1.prems"(1) False] .
    have rest: "\<forall>s\<in>set (mask_select (map Not ?b) rem). length s = n"
      using "1.prems"(2) by (simp add: distances_below_def mask_select_filter)
    have side: "\<forall>d<n. 0 \<le> projr (np_max_axis0 (mask_select ?b rem)) ! d
           - projr (np_min_axis0 (mask_select ?b rem)) ! d \<and>
         projr (np_max_axis0 (mask_select ?b rem)) ! d
           - projr (np_min_axis0 (mask_select ?b rem)) ! d < 2 * r"
      using cluster_box_side [OF "1.prems"(1) False "1.prems"(2)] by blast
    have ok: "boxes_ok r n ?acc"
      using "1.prems"(3) side
      by (auto simp: boxes_ok_def nth_append less_Suc_eq)
    have step: "cluster_loop r rem rem_i acc =
        cluster_loop r (mask_select (map Not ?b) rem) (mask_select (map Not ?b) rem_i) ?acc"
      using False sel by (subst cluster_loop.simps) simp
    from "1.IH" [OF False sel "1.prems"(1) rest ok] "1.prems"(4) step
    show ?thesis by simp
  qed
qed


lemma cluster_loop_example:
  "cluster_loop 3 [[0], [2], [-2], [5]] [0..<length [[0], [2], [-2], [5::real]]]
      \<lparr>cl_value = [], cl_lb = [], cl_ub = []\<rparr>
   = Inr \<lparr>cl_value = [3, 1], cl_lb = [[-2], [5]], cl_ub = [[2], [5]]\<rparr>"
  by (simp add: cluster_loop.simps distances_below_def mask_select_def norm_diff_def
        np_min_axis0_def np_max_axis0_def upt_rec)

text \<open>
  Claim C6. With clustering enabled (a positive radius), the clustering loop returns, the
  sizes of its clusters add up to the number of samples, and so the closing assertion
  \<open>sum(clusters0['value']) == noise_samples\<close> passes exactly when the sample array has
  \<open>noise_samples\<close> rows; otherwise the step ends in an AssertionError.
\<close>

theorem cluster_sizes_sum_to_sample_count:
  assumes "0 < sample_clustering"
  shows "\<exists>clusters0. cluster_loop sample_clustering samples [0..<length samples]
                \<lparr>cl_value = [], cl_lb = [], cl_ub = []\<rparr> = Inr clusters0
     \<and> sum_list (cl_value clusters0) = length samples
     \<and> cluster_samples sample_clustering samples noise_samples =
         (if length samples = noise_samples then Inr clusters0 else Inl AssertionError)"
proof -
  have "length [0..<length samples] = length samples" by simp
  from cluster_loop_sum [OF assms this, of "\<lparr>cl_value = [], cl_lb = [], cl_ub = []\<rparr>"]
  obtain c where c: "cluster_loop sample_clustering samples [0..<length samples]
                \<lparr>cl_value = [], cl_lb = [], cl_ub = []\<rparr> = Inr c"
    and s: "sum_list (cl_value c) = length samples" by auto
  show ?thesis using c s assms by (auto simp: cluster_samples_def)
qed

theorem cluster_sizes_sum_to_sample_count_witness:
  "(0::real) < 3 \<and>
   (\<exists>c. cluster_samples 3 [[0], [2], [-2], [5]] 4 = Inr c \<and> sum_list (cl_value c) = 4) \<and>
   cluster_samples 3 [[0], [2], [-2], [5]] 5 = Inl AssertionError"
proof -
  have pos: "(0::real) < 3" by simp
  from cluster_sizes_sum_to_sample_count [OF pos, of "[[0], [2], [-2], [5]]" 4]
  have a: "\<exists>c. cluster_samples 3 [[0], [2], [-2], [5]] 4 = Inr c \<and> sum_list (cl_value c) = 4"
    by auto
  from cluster_sizes_sum_to_sample_count [OF pos, of "[[0], [2], [-2], [5]]" 5]
  have b: "cluster_samples 3 [[0], [2], [-2], [5]] 5 = Inl AssertionError"
    by auto
  from pos a b show ?thesis by blast
qed

text \<open>
  Claim C7, as stated: every side of a cluster's bounding box is at most the clustering
  radius. It fails: with radius 3 the one-dimensional samples 0, 2, -2 form one cluster
  (2 and -2 are both within distance 3 of the first sample 0), whose box [-2, 2] has side 4.
\<close>

theorem cluster_box_side_counterexample:
  "cluster_samples 3 [[0], [2], [-2]] 3
     = Inr \<lparr>cl_value = [3], cl_lb = [[-2]], cl_ub = [[2]]\<rparr> \<and>
   \<not> (cl_ub (projr (cluster_samples 3 [[0], [2], [-2]] 3)) ! 0 ! 0
        - cl_lb (projr (cluster_samples 3 [[0], [2], [-2]] 3)) ! 0 ! 0 \<le> 3)"
  by (simp add: cluster_samples_def cluster_loop.simps distances_below_def mask_select_def
        norm_diff_def np_min_axis0_def np_max_axis0_def)

text \<open>
  Claim C7, amended: every cluster collects samples within the radius of its first sample,
  so every side of its bounding box is nonnegative and strictly less than twice the
  clustering radius (the diameter of the ball), in every dimension of the samples.
\<close>

theorem cluster_box_side_below_diameter:
  assumes "0 < max_radius" and "\<forall>s\<in>set samples. length s = n"
    and "cluster_loop max_radius samples [0..<length samples]
           \<lparr>cl_value = [], cl_lb = [], cl_ub = []\<rparr> = Inr c"
    and "i < length (cl_value c)" and "d < n"
  shows "0 \<le> cl_ub c ! i ! d - cl_lb c ! i ! d \<and>
         cl_ub c ! i ! d - cl_lb c ! i ! d < 2 * max_radius"
proof -
  have "boxes_ok max_radius n \<lparr>cl_value = [], cl_lb = [], cl_ub = []\<rparr>"
    by (simp add: boxes_ok_def)
  from cluster_loop_boxes [OF assms(1,2) this assms(3)] assms(4,5)
  show ?thesis by (simp add: boxes_ok_def)
qed

theorem cluster_box_side_below_diameter_witness:
  "(0::real) < 3 \<and> list_all (\<lambda>s. length s = 1) [[0], [2], [-2], [5::real]] \<and>
   cluster_loop 3 [[0], [2], [-2], [5]] [0..<length [[0], [2], [-2], [5::real]]]
      \<lparr>cl_value = [], cl_lb = [], cl_ub = []\<rparr>
     = Inr \<lparr>cl_value = [3, 1], cl_lb = [[-2], [5]], cl_ub = [[2], [5]]\<rparr> \<and>
   (0::real) \<le> 2 - (-2) \<and> (2::real) - (-2) < 2 * 3"
proof -
  have pos: "(0::real) < 3" by simp
  have dims: "\<forall>s\<in>set [[0], [2], [-2], [5::real]]. length s = 1" by simp
  have run: "cluster_loop 3 [[0], [2], [-2], [5]] [0..<length [[0], [2], [-2], [5::real]]]
      \<lparr>cl_value = [], cl_lb = [], cl_ub = []\<rparr>
     = Inr \<lparr>cl_value = [3, 1], cl_lb = [[-2], [5]], cl_ub = [[2], [5]]\<rparr>"
    by (rule cluster_loop_example)
  have i: "0 < length (cl_value \<lparr>cl_value = [3, 1], cl_lb = [[-2], [5::real]], cl_ub = [[2], [5::real]]\<rparr>)"
    by simp
  from cluster_box_side_below_diameter [OF pos dims run i, of 0] pos run
  show ?thesis by simp
qed

section \<open>Properties of the exact mode\<close>

lemma counts_incr_sum: "sum_list (map snd (counts_incr idx counts)) = sum_list (map snd counts) + 1"
  by (induction idx counts rule: counts_incr.induct) simp_all

lemma counts_incr_positive:
  "\<forall>rc\<in>set counts. 1 \<le> snd rc \<Longrightarrow> \<forall>rc\<in>set (counts_incr idx counts). 1 \<le> snd rc"
  by (induction idx counts rule: counts_incr.induct) auto

lemma counts_incr_keys: "fst ` set (counts_incr idx counts) = insert idx (fst ` set counts)"
  by (induction idx counts rule: counts_incr.induct) auto

lemma counts_incr_distinct:
  "distinct (map fst counts) \<Longrightarrow> distinct (map fst (counts_incr idx counts))"
proof (induction idx counts rule: counts_incr.induct)
  case (1 idx)
  then show ?case by simp
next
  case (2 idx i c rest)
  then show ?case using counts_incr_keys [of idx rest] by auto
qed

lemma counts_incr_count_of:
  "count_of (counts_incr idx counts) r = count_of counts r + (if r = idx then 1 else 0)"
  by (induction idx counts rule: counts_incr.induct) (auto simp: count_of_def)

lemma count_samples_returns:
  "\<forall>s\<in>set ss. s < length centers \<Longrightarrow> \<exists>counts'. count_samples c_tuple centers ss counts = Inr counts'"
  by (induction ss arbitrary: counts) (auto split: option.splits)

lemma count_samples_sum:
  "count_samples c_tuple centers ss counts = Inr counts' \<Longrightarrow>
   sum_list (map snd counts') =
     sum_list (map snd counts) + int (length (filter (\<lambda>s. c_tuple (centers ! s) \<noteq> None) ss))"
proof (induction ss arbitrary: counts)
  case Nil
  then show ?case by simp
next
  case (Cons s ss)
  show ?case
  proof (cases "c_tuple (centers ! s)")
    case None
    with Cons.prems have "count_samples c_tuple centers ss counts = Inr counts'"
      by (simp split: if_splits)
    from Cons.IH [OF this] None show ?thesis by simp
  next
    case (Some idx)
    with Cons.prems have "count_samples c_tuple centers ss (counts_incr idx counts) = Inr counts'"
      by (simp split: if_splits)
    from Cons.IH [OF this] Some show ?thesis by (simp add: counts_incr_sum)
  qed
qed

lemma count_samples_invariants:
  "count_samples c_tuple centers ss counts = Inr counts' \<Longrightarrow>
   \<forall>rc\<in>set counts. 1 \<le> snd rc \<Longrightarrow> distinct (map fst counts) \<Longrightarrow>
   (\<forall>rc\<in>set counts'. 1 \<le> snd rc) \<and> distinct (map fst counts') \<and>
   (\<forall>r. count_of counts' r =
      count_of counts r + int (length (filter (\<lambda>s. c_tuple (centers ! s) = Some r) ss)))"
proof (induction ss arbitrary: counts)
  case Nil
  then show ?case by simp
next
  case (Cons s ss)
  show ?case
  proof (cases "c_tuple (centers ! s)")
    case None
    with Cons.prems have "count_samples c_tuple centers ss counts = Inr counts'"
      by (simp split: if_splits)
    from Cons.IH [OF this Cons.prems(2,3)] None show ?thesis by simp
  next
    case (Some idx)
    with Cons.prems have run: "count_samples c_tuple centers ss (counts_incr idx counts) = Inr counts'"
      by (simp split: if_splits)
    from Cons.IH [OF run counts_incr_positive [OF Cons.prems(2)] counts_incr_distinct [OF Cons.prems(3)]]
      Some show ?thesis by (auto simp: counts_incr_count_of)
  qed
qed

lemma entry_le_sum:
  "\<forall>rc\<in>set counts. 0 \<le> snd rc \<Longrightarrow> rc \<in> set counts \<Longrightarrow> snd rc \<le> sum_list (map snd counts)"
  for counts :: "(int \<times> int) list"
proof (induction counts)
  case Nil
  then show ?case by simp
next
  case (Cons a counts)
  have "0 \<le> sum_list (map snd counts)" using Cons.prems(1) by (intro sum_list_nonneg) auto
  then show ?case using Cons by auto
qed

lemma filter_nth_count:
  "length (filter (\<lambda>s. P (xs ! s)) [0..<length xs]) = length (filter P xs)"
proof -
  have "filter P xs = filter P (map (\<lambda>s. xs ! s) [0..<length xs])" by (simp add: map_nth)
  also have "\<dots> = map (\<lambda>s. xs ! s) (filter (\<lambda>s. P (xs ! s)) [0..<length xs])"
    by (simp add: filter_map comp_def)
  finally show ?thesis by (metis length_map)
qed

text \<open>Everything the two exact-mode claims need about the tally of the samples.\<close>

lemma tally_facts:
  assumes "int (length centers) = Nsamples"
  shows "\<exists>counts. count_samples c_tuple centers [0..<nat Nsamples] [] = Inr counts \<and>
     distinct (map fst counts) \<and>
     sum_list (map snd counts) = int (length (filter (\<lambda>c. c_tuple c \<noteq> None) centers)) \<and>
     (\<forall>rc\<in>set counts. 1 \<le> snd rc \<and> snd rc \<le> sum_list (map snd counts) \<and>
        snd rc = int (length (filter (\<lambda>c. c_tuple c = Some (fst rc)) centers))) \<and>
     (\<forall>r. (r \<in> fst ` set counts) = (\<exists>c\<in>set centers. c_tuple c = Some r))"
proof -
  have n: "nat Nsamples = length centers" using assms by auto
  have "\<forall>s\<in>set [0..<nat Nsamples]. s < length centers" using n by simp
  from count_samples_returns [OF this]
  obtain counts where run: "count_samples c_tuple centers [0..<nat Nsamples] [] = Inr counts"
    by blast
  from count_samples_sum [OF run] filter_nth_count [of "\<lambda>c. c_tuple c \<noteq> None" centers]
  have total: "sum_list (map snd counts) = int (length (filter (\<lambda>c. c_tuple c \<noteq> None) centers))"
    by (simp add: n)
  from count_samples_invariants [OF run]
  have pos: "\<forall>rc\<in>set counts. 1 \<le> snd rc" and dist: "distinct (map fst counts)"
    and cnt0: "\<And>r. count_of counts r =
       int (length (filter (\<lambda>s. c_tuple (centers ! s) = Some r) [0..<length centers]))"
    by (simp_all add: n count_of_def)
  have cnt: "count_of counts r = int (length (filter (\<lambda>c. c_tuple c = Some r) centers))" for r
    using cnt0 [of r] filter_nth_count [of "\<lambda>c. c_tuple c = Some r" centers] by simp
  have each: "1 \<le> snd rc \<and> snd rc \<le> sum_list (map snd counts) \<and>
        snd rc = int (length (filter (\<lambda>c. c_tuple c = Some (fst rc)) centers))"
    if "rc \<in> set counts" for rc
  proof -
    from that dist have "map_of counts (fst rc) = Some (snd rc)"
      by (metis map_of_is_SomeI prod.collapse)
    then have "count_of counts (fst rc) = snd rc" by (simp add: count_of_def)
    moreover have "snd rc \<le> sum_list (map snd counts)"
      using entry_le_sum [OF _ that] pos by fastforce
    ultimately show ?thesis using pos that cnt by auto
  qed
  have keys: "(r \<in> fst ` set counts) = (\<exists>c\<in>set centers. c_tuple c = Some r)" for r
  proof
    assume "r \<in> fst ` set counts"
    then obtain rc where rc: "rc \<in> set counts" and r: "r = fst rc" by blast
    from each [OF rc] have "1 \<le> int (length (filter (\<lambda>c. c_tuple c = Some (fst rc)) centers))"
      by linarith
    then have "filter (\<lambda>c. c_tuple c = Some (fst rc)) centers \<noteq> []" by auto
    then have "filter (\<lambda>c. c_tuple c = Some r) centers \<noteq> []" using r by simp
    then show "\<exists>c\<in>set centers. c_tuple c = Some r" by (simp add: filter_empty_conv)
  next
    assume "\<exists>c\<in>set centers. c_tuple c = Some r"
    then have "filter (\<lambda>c. c_tuple c = Some r) centers \<noteq> []" by (simp add: filter_empty_conv)
    then have "0 < count_of counts r" using cnt [of r] by simp
    then have "map_of counts r \<noteq> None"
      by (cases "map_of counts r") (simp_all add: count_of_def)
    then show "r \<in> fst ` set counts" by (simp add: map_of_eq_None_iff)
  qed
  show ?thesis using run dist total each keys by blast
qed


lemma memory_at_in_range:
  "0 \<le> k \<Longrightarrow> k < int (length memory) \<Longrightarrow> memory_at memory k = Inr (memory ! nat k)"
  by (simp add: memory_at_def)



lemma count_samples_example:
  "count_samples [[1/2] \<mapsto> 0, [3/2] \<mapsto> 1] [[1/2], [3/2], [1/2], [7]] [0..<nat 4] []
     = Inr [(0, 2), (1, 1)]"
  by (simp add: upt_rec)

text \<open>
  Claim C10. In exact mode, when the centre array has exactly \<open>Nsamples\<close> rows, the tally
  returns; the number \<open>Nsamples - sum(counts.values())\<close> of samples in no region and every
  per-region \<open>Nsamples - count\<close> lie between 0 and \<open>Nsamples\<close>, so neither guard
  \<open>k > Nsamples\<close> can hold, and in a table of \<open>Nsamples + 1\<close> rows every access
  \<open>memory[k]\<close> reads row \<open>k\<close> itself, without an IndexError and without wrapping around.
\<close>

theorem exact_mode_discard_counts_in_range:
  assumes "int (length centers) = Nsamples" and "length memory = nat Nsamples + 1"
  shows "\<exists>counts. count_samples c_tuple centers [0..<nat Nsamples] [] = Inr counts \<and>
     0 \<le> Nsamples - sum_list (map snd counts) \<and>
     \<not> Nsamples - sum_list (map snd counts) > Nsamples \<and>
     memory_at memory (Nsamples - sum_list (map snd counts)) =
       Inr (memory ! nat (Nsamples - sum_list (map snd counts))) \<and>
     (\<forall>rc\<in>set counts. 0 \<le> Nsamples - snd rc \<and> \<not> Nsamples - snd rc > Nsamples \<and>
        memory_at memory (Nsamples - snd rc) = Inr (memory ! nat (Nsamples - snd rc)))"
proof -
  from tally_facts [OF assms(1), of c_tuple]
  obtain counts where run: "count_samples c_tuple centers [0..<nat Nsamples] [] = Inr counts"
    and total: "sum_list (map snd counts) = int (length (filter (\<lambda>c. c_tuple c \<noteq> None) centers))"
    and each: "\<forall>rc\<in>set counts. 1 \<le> snd rc \<and> snd rc \<le> sum_list (map snd counts) \<and>
        snd rc = int (length (filter (\<lambda>c. c_tuple c = Some (fst rc)) centers))"
    by blast
  have N0: "0 \<le> Nsamples" using assms(1) by linarith
  have lm: "int (length memory) = Nsamples + 1" using assms(2) N0 by simp
  have "length (filter (\<lambda>c. c_tuple c \<noteq> None) centers) \<le> length centers"
    by (rule length_filter_le)
  with total assms(1) have le: "sum_list (map snd counts) \<le> Nsamples" by linarith
  have ge: "0 \<le> sum_list (map snd counts)" using total by linarith
  have dead: "memory_at memory (Nsamples - sum_list (map snd counts)) =
       Inr (memory ! nat (Nsamples - sum_list (map snd counts)))"
    using le ge lm by (intro memory_at_in_range) linarith+
  have bins: "\<forall>rc\<in>set counts. 0 \<le> Nsamples - snd rc \<and> \<not> Nsamples - snd rc > Nsamples \<and>
        memory_at memory (Nsamples - snd rc) = Inr (memory ! nat (Nsamples - snd rc))"
  proof
    fix rc assume "rc \<in> set counts"
    with each have "1 \<le> snd rc" and "snd rc \<le> sum_list (map snd counts)" by blast+
    with le have a: "0 \<le> Nsamples - snd rc" and b: "\<not> Nsamples - snd rc > Nsamples" by linarith+
    have "memory_at memory (Nsamples - snd rc) = Inr (memory ! nat (Nsamples - snd rc))"
      using a b lm by (intro memory_at_in_range) linarith+
    with a b show "0 \<le> Nsamples - snd rc \<and> \<not> Nsamples - snd rc > Nsamples \<and>
        memory_at memory (Nsamples - snd rc) = Inr (memory ! nat (Nsamples - snd rc))"
      by blast
  qed
  show ?thesis using run le ge dead bins by (intro exI [of _ counts]) simp
qed

theorem exact_mode_discard_counts_in_range_witness:
  "int (length [[1/2], [3/2], [1/2], [7::real]]) = 4 \<and>
   length ([(1/2, 1), (3/10, 9/10), (1/5, 7/10), (1/10, 1/2), (0, 3/10)] :: scenario_table) = nat 4 + 1 \<and>
   count_samples [[1/2] \<mapsto> 0, [3/2] \<mapsto> 1] [[1/2], [3/2], [1/2], [7]] [0..<nat 4] []
     = Inr [(0, 2), (1, 1)] \<and>
   memory_at [(1/2, 1), (3/10, 9/10), (1/5, 7/10), (1/10, 1/2), (0, 3/10)] (4 - 3)
     = Inr (3/10, 9/10) \<and>
   memory_at [(1/2, 1), (3/10, 9/10), (1/5, 7/10), (1/10, 1/2), (0, 3/10)] (4 - 2)
     = Inr (1/5, 7/10) \<and>
   memory_at [(1/2, 1), (3/10, 9/10), (1/5, 7/10), (1/10, 1/2), (0, 3/10)] (4 - 1)
     = Inr (1/10, 1/2)"
proof -
  let ?cs = "[[1/2], [3/2], [1/2], [7::real]]"
  let ?mem = "([(1/2, 1), (3/10, 9/10), (1/5, 7/10), (1/10, 1/2), (0, 3/10)] :: scenario_table)"
  let ?ct = "[[1/2] \<mapsto> 0, [3/2] \<mapsto> (1::int)] :: center \<rightharpoonup> int"
  have h1: "int (length ?cs) = 4" by simp
  have h2: "length ?mem = nat 4 + 1" by simp
  from exact_mode_discard_counts_in_range [OF h1 h2, of ?ct]
  obtain counts where run: "count_samples ?ct ?cs [0..<nat 4] [] = Inr counts"
    and dead: "memory_at ?mem (4 - sum_list (map snd counts)) =
       Inr (?mem ! nat (4 - sum_list (map snd counts)))"
    and bins: "\<forall>rc\<in>set counts. 0 \<le> 4 - snd rc \<and> \<not> 4 - snd rc > 4 \<and>
        memory_at ?mem (4 - snd rc) = Inr (?mem ! nat (4 - snd rc))"
    by (elim exE conjE) (rule that; assumption)
  from run count_samples_example have counts: "counts = [(0, 2), (1, 1)]" by simp
  from dead have "memory_at ?mem (4 - 3) = Inr (3/10, 9/10)" unfolding counts by simp
  moreover from bins have "memory_at ?mem (4 - 2) = Inr (1/5, 7/10)" unfolding counts by simp
  moreover from bins have "memory_at ?mem (4 - 1) = Inr (1/10, 1/2)" unfolding counts by simp
  ultimately show ?thesis using h1 h2 count_samples_example by blast
qed


section \<open>Properties of the rounding\<close>

lemma round_half_even_cases:
  "round_half_even x = \<lfloor>x\<rfloor> \<or> round_half_even x = \<lfloor>x\<rfloor> + 1"
  by (simp add: round_half_even_def)

lemma round_half_even_error: "\<bar>of_int (round_half_even x) - x\<bar> \<le> 1 / 2"
proof -
  have "of_int \<lfloor>x\<rfloor> \<le> x" and "x < of_int \<lfloor>x\<rfloor> + 1" by linarith+
  then show ?thesis by (auto simp: round_half_even_def)
qed

lemma round_half_even_of_int: "round_half_even (of_int k) = k"
  by (simp add: round_half_even_def)

lemma round_half_even_mono:
  assumes "x \<le> y"
  shows "round_half_even x \<le> round_half_even y"
proof (cases "\<lfloor>x\<rfloor> = \<lfloor>y\<rfloor>")
  case True
  then show ?thesis using assms by (auto simp: round_half_even_def)
next
  case False
  with assms have "\<lfloor>x\<rfloor> < \<lfloor>y\<rfloor>" using floor_mono [OF assms] by linarith
  then have "\<lfloor>x\<rfloor> + 1 \<le> \<lfloor>y\<rfloor>" by simp
  moreover have "round_half_even x \<le> \<lfloor>x\<rfloor> + 1" using round_half_even_cases [of x] by auto
  moreover have "\<lfloor>y\<rfloor> \<le> round_half_even y" using round_half_even_cases [of y] by auto
  ultimately show ?thesis by linarith
qed

lemma np_round_mono: "a \<le> b \<Longrightarrow> np_round a d \<le> np_round b d"
proof -
  assume "a \<le> b"
  then have "a * 10 ^ d \<le> b * 10 ^ d" by simp
  from round_half_even_mono [OF this] show ?thesis
    by (simp add: np_round_def divide_right_mono)
qed

lemma np_round_error: "\<bar>np_round a d - a\<bar> \<le> 1 / (2 * 10 ^ d)"
proof -
  have p: "(0::real) < 10 ^ d" by simp
  have "np_round a d - a = (of_int (round_half_even (a * 10 ^ d)) - a * 10 ^ d) / 10 ^ d"
    by (simp add: np_round_def diff_divide_distrib)
  then have "\<bar>np_round a d - a\<bar> = \<bar>of_int (round_half_even (a * 10 ^ d)) - a * 10 ^ d\<bar> / 10 ^ d"
    by simp
  also have "\<dots> \<le> (1 / 2) / 10 ^ d"
    by (rule divide_right_mono [OF round_half_even_error]) simp
  finally show ?thesis by simp
qed

lemma np_round_grid: "np_round (of_int k / 10 ^ d) d = of_int k / 10 ^ d"
  by (simp add: np_round_def round_half_even_of_int)

lemma floor_decimal_mono: "a \<le> b \<Longrightarrow> floor_decimal a d \<le> floor_decimal b d"
  by (simp add: floor_decimal_def np_round_mono)

lemma floor_decimal_one: "floor_decimal 1 5 = 1"
  by (simp add: floor_decimal_def np_round_def round_half_even_def)

lemma floor_decimal_pmin: "floor_decimal (1 / 10000) 5 = 1 / 10000"
  by (simp add: floor_decimal_def np_round_def round_half_even_def)

lemma floor_decimal_zero: "floor_decimal 0 5 = 0"
  by (simp add: floor_decimal_def np_round_def round_half_even_def)

lemma floor_decimal_le: "floor_decimal a d \<le> a"
proof -
  have "np_round (a - 0.5 * (1 / 10 ^ d)) d - (a - 0.5 * (1 / 10 ^ d)) \<le> 1 / (2 * 10 ^ d)"
    using np_round_error [of "a - 0.5 * (1 / 10 ^ d)" d] by linarith
  then show ?thesis by (simp add: floor_decimal_def)
qed


section \<open>Properties of the returned estimates and intervals\<close>

lemma Inr_projr: "x = Inr r \<Longrightarrow> x = Inr (projr x)"
  by simp

lemma all_indices_3: "all_indices [3] = [[0], [1], [2]]"
  by (simp add: all_indices_def upto.simps)

text \<open>
  A run of the interval mode: one sample, whose box covers the three regions of a
  one-dimensional partition; no goal or critical region.
\<close>

lemma spanning_cluster_masks:
  "in_single_region [3]
     \<lparr>cr_value = 1, cr_imin = [0], cr_imax = [2], cr_iMin = [0], cr_iMax = [2]\<rparr> = False"
  "fully_out [3]
     \<lparr>cr_value = 1, cr_imin = [0], cr_imax = [2], cr_iMin = [0], cr_iMax = [2]\<rparr> = False"
  "partially_out [3]
     \<lparr>cr_value = 1, cr_imin = [0], cr_imax = [2], cr_iMin = [0], cr_iMax = [2]\<rparr> = False"
  "keep [3]
     \<lparr>cr_value = 1, cr_imin = [0], cr_imax = [2], cr_iMin = [0], cr_iMax = [2]\<rparr> = True"
  by (simp_all add: in_single_region_def fully_out_def partially_out_def keep_def)

lemma spanning_cluster_run:
  "map_sum id (\<lambda>r. (rd_approx r, rd_deadlock_approx r))
     (computeScenarioBounds_error 1 (1/2) {} {} hd [3] [(1/2, 1), (0, 1/2)]
        [\<lparr>cr_value = 1, cr_imin = [0], cr_imax = [2], cr_iMin = [0], cr_iMax = [2]\<rparr>])
   = Inr ([1/2, 1/2, 1/2], - (1/2))"
  by (simp add: computeScenarioBounds_error_def error_bounds_of_def error_report_def
       classify_def spanning_cluster_masks mask_select_def enumerate_eq_zip rem_step_def Let_def
       index_tuples_def in_slices_def slice_indices_def slice_bound_def
       counts_table_def all_indices_3 memory_at_def np_round_def round_half_even_def)

text \<open>
  Claim C4, as stated: the reported deadlock point estimate is never negative. It fails
  in interval mode: a single sample (\<open>Nsamples = 1\<close>) whose box covers three regions
  counts for the upper bound of each of them, every region gets the point estimate
  \<open>(0 + 1) / 2 / 1 = 0.5\<close>, and the deadlock estimate is \<open>round(1 - 1.5, 5) = -0.5\<close>.
\<close>

theorem deadlock_estimate_negative_counterexample:
  "map_sum id rd_deadlock_approx
     (computeScenarioBounds_error 1 (1/2) {} {} hd [3] [(1/2, 1), (0, 1/2)]
        [\<lparr>cr_value = 1, cr_imin = [0], cr_imax = [2], cr_iMin = [0], cr_iMax = [2]\<rparr>])
   = Inr (- (1/2)) \<and> \<not> (0::real) \<le> - (1/2)"
  by (simp add: computeScenarioBounds_error_def error_bounds_of_def error_report_def
       classify_def spanning_cluster_masks mask_select_def enumerate_eq_zip rem_step_def Let_def
       index_tuples_def in_slices_def slice_indices_def slice_bound_def
       counts_table_def all_indices_3 memory_at_def np_round_def round_half_even_def)

text \<open>
  Claim C4, amended: in both modes the reported deadlock point estimate is
  \<open>1 - sum(point estimates)\<close> rounded to 5 decimals, so that the deadlock estimate and the
  successor estimates add up to 1 within half a unit of the fifth decimal. (Nothing keeps
  the estimate from being negative.)
\<close>

theorem deadlock_estimate_conserves_mass:
  assumes "computeScenarioBounds_sparse Nsamples c_tuple memory centers = Inr res \<or>
           computeScenarioBounds_error Nsamples confidence goal_idx critical_idx R_idx nrPerDim
             memory rows = Inr res"
  shows "rd_deadlock_approx res = np_round (1 - sum_list (rd_approx res)) 5 \<and>
         \<bar>rd_deadlock_approx res + sum_list (rd_approx res) - 1\<bar> \<le> 1 / 200000"
proof -
  have eq: "rd_deadlock_approx res = np_round (1 - sum_list (rd_approx res)) 5"
    using assms
    by (auto simp: computeScenarioBounds_sparse_def computeScenarioBounds_error_def
          sparse_report_def error_report_def split: sum.splits)
  have "\<bar>np_round (1 - sum_list (rd_approx res)) 5 - (1 - sum_list (rd_approx res))\<bar>
          \<le> 1 / (2 * 10 ^ 5)"
    by (rule np_round_error)
  moreover have "np_round (1 - sum_list (rd_approx res)) 5 - (1 - sum_list (rd_approx res))
      = rd_deadlock_approx res + sum_list (rd_approx res) - 1"
    using eq by simp
  ultimately have "\<bar>rd_deadlock_approx res + sum_list (rd_approx res) - 1\<bar> \<le> 1 / 200000"
    by simp
  with eq show ?thesis by blast
qed

theorem deadlock_estimate_conserves_mass_witness:
  "computeScenarioBounds_error 1 (1/2) {} {} hd [3] [(1/2, 1), (0, 1/2)]
      [\<lparr>cr_value = 1, cr_imin = [0], cr_imax = [2], cr_iMin = [0], cr_iMax = [2]\<rparr>]
     = Inr (projr (computeScenarioBounds_error 1 (1/2) {} {} hd [3] [(1/2, 1), (0, 1/2)]
      [\<lparr>cr_value = 1, cr_imin = [0], cr_imax = [2], cr_iMin = [0], cr_iMax = [2]\<rparr>])) \<and>
   rd_approx (projr (computeScenarioBounds_error 1 (1/2) {} {} hd [3] [(1/2, 1), (0, 1/2)]
      [\<lparr>cr_value = 1, cr_imin = [0], cr_imax = [2], cr_iMin = [0], cr_iMax = [2]\<rparr>]))
     = [1/2, 1/2, 1/2] \<and>
   rd_deadlock_approx (projr (computeScenarioBounds_error 1 (1/2) {} {} hd [3] [(1/2, 1), (0, 1/2)]
      [\<lparr>cr_value = 1, cr_imin = [0], cr_imax = [2], cr_iMin = [0], cr_iMax = [2]\<rparr>]))
     = np_round (1 - sum_list [1/2, 1/2, 1/2]) 5"
proof -
  let ?run = "computeScenarioBounds_error 1 (1/2) {} {} hd [3] [(1/2, 1), (0, 1/2)]
      [\<lparr>cr_value = 1, cr_imin = [0], cr_imax = [2], cr_iMin = [0], cr_iMax = [2]\<rparr>]"
  from spanning_cluster_run obtain r where r: "?run = Inr r"
    by (cases ?run) simp_all
  then have ok: "?run = Inr (projr ?run)" by simp
  have approx: "rd_approx (projr ?run) = [1/2, 1/2, 1/2]"
    using spanning_cluster_run r by simp
  from deadlock_estimate_conserves_mass [of 1 Map.empty "[(1/2, 1), (0, 1/2)]" "[]" "projr ?run",
      OF disjI2, OF ok]
  have "rd_deadlock_approx (projr ?run) = np_round (1 - sum_list (rd_approx (projr ?run))) 5"
    by blast
  with ok approx show ?thesis by simp
qed

lemma epsilon_nonneg:
  assumes "0 < Nsamples" and "0 < confidence" and "confidence \<le> 2"
  shows "0 \<le> epsilon Nsamples confidence"
proof -
  have "1 \<le> 2 / confidence" using assms(2,3) by simp
  then have "0 \<le> ln (2 / confidence)" by simp
  moreover have "0 \<le> 1 / (2 * real_of_int Nsamples)" using assms(1) by simp
  ultimately have "0 \<le> 1 / (2 * real_of_int Nsamples) * ln (2 / confidence)"
    by (rule mult_nonneg_nonneg [rotated])
  then show ?thesis by (simp add: epsilon_def)
qed

lemma interval_lower_clamped: "1 / 10000 \<le> floor_decimal (max (1 / 10000) x) 5"
proof -
  have "floor_decimal (1 / 10000) 5 \<le> floor_decimal (max (1 / 10000) x) 5"
    by (rule floor_decimal_mono) simp
  then show ?thesis by (simp add: floor_decimal_pmin)
qed

lemma interval_upper_clamped: "floor_decimal (min 1 y) 5 \<le> 1"
proof -
  have "floor_decimal (min 1 y) 5 \<le> floor_decimal 1 5"
    by (rule floor_decimal_mono) simp
  then show ?thesis by (simp add: floor_decimal_one)
qed

lemma clamped_bounds_ordered:
  assumes "low \<le> upp" and "low \<le> 1" and "1 / 10000 \<le> floor_decimal upp 5"
  shows "max (1 / 10000) (floor_decimal low 5) \<le> min 1 (floor_decimal upp 5)"
proof -
  have "floor_decimal low 5 \<le> low" by (rule floor_decimal_le)
  with assms(2) have "floor_decimal low 5 \<le> 1" by linarith
  moreover have "floor_decimal low 5 \<le> floor_decimal upp 5"
    using assms(1) by (rule floor_decimal_mono)
  ultimately show ?thesis using assms(3) by simp
qed

text \<open>
  A run of the interval mode: 100000 samples in one cluster that lies in the middle region
  of a one-dimensional partition of three regions; row 0 of the table has the lower bound
  0.999954.
\<close>

lemma inner_cluster_masks:
  "in_single_region [3]
     \<lparr>cr_value = 100000, cr_imin = [1], cr_imax = [1], cr_iMin = [1], cr_iMax = [1]\<rparr> = True"
  "fully_out [3]
     \<lparr>cr_value = 100000, cr_imin = [1], cr_imax = [1], cr_iMin = [1], cr_iMax = [1]\<rparr> = False"
  "partially_out [3]
     \<lparr>cr_value = 100000, cr_imin = [1], cr_imax = [1], cr_iMin = [1], cr_iMax = [1]\<rparr> = False"
  "keep [3]
     \<lparr>cr_value = 100000, cr_imin = [1], cr_imax = [1], cr_iMin = [1], cr_iMax = [1]\<rparr> = False"
  by (simp_all add: in_single_region_def fully_out_def partially_out_def keep_def)

lemma inner_cluster_bounds:
  "map_sum id (\<lambda>b. (eb_counts b, eb_deadlock_low b, eb_deadlock_upp b, eb_probability_low b,
                     eb_probability_upp b))
     (error_bounds_of 100000 (1/100) {} {} hd [3] ((999954/1000000, 1) # replicate 100000 (0, 1))
        [\<lparr>cr_value = 100000, cr_imin = [1], cr_imax = [1], cr_iMin = [1], cr_iMax = [1]\<rparr>])
   = Inr ([(1, 100000, 100000)], 0, 46/1000000, [999954/1000000], [1])"
proof -
  have "0 \<le> epsilon 100000 (1/100)" by (rule epsilon_nonneg) simp_all
  then show ?thesis
    by (simp add: error_bounds_of_def classify_def inner_cluster_masks mask_select_def
          enumerate_eq_zip nd_index_def counts_table_def all_indices_3 memory_at_def)
qed

lemma sparse_report_intervals:
  "rd_deadlock_interval (sparse_report b) # rd_intervals (sparse_report b) =
     map (\<lambda>p. (floor_decimal (max (1 / 10000) (floor_decimal (fst p) 5)) 5,
               floor_decimal (min 1 (floor_decimal (snd p) 5)) 5))
       ((sp_deadlock_low b, sp_deadlock_upp b) #
          zip (sp_probability_low b) (sp_probability_upp b))"
  by (simp add: sparse_report_def zip_map_map case_prod_beta)

lemma error_report_intervals:
  "rd_deadlock_interval (error_report b) # rd_intervals (error_report b) =
     map (\<lambda>p. (max (1 / 10000) (floor_decimal (fst p) 5), min 1 (floor_decimal (snd p) 5)))
       ((eb_deadlock_low b, eb_deadlock_upp b) #
          zip (eb_probability_low b) (eb_probability_upp b))"
  by (simp add: error_report_def zip_map_map case_prod_beta)

lemma sparse_interval_facts:
  "1 / 10000 \<le> floor_decimal (max (1 / 10000) (floor_decimal low 5)) 5 \<and>
   floor_decimal (min 1 (floor_decimal upp 5)) 5 \<le> 1 \<and>
   (low \<le> upp \<and> low \<le> 1 \<and> 1 / 10000 \<le> floor_decimal upp 5 \<longrightarrow>
      floor_decimal (max (1 / 10000) (floor_decimal low 5)) 5
        \<le> floor_decimal (min 1 (floor_decimal upp 5)) 5)"
  using interval_lower_clamped interval_upper_clamped
  by (auto intro!: floor_decimal_mono clamped_bounds_ordered)

lemma error_interval_facts:
  "1 / 10000 \<le> max (1 / 10000) (floor_decimal low 5) \<and>
   min 1 (floor_decimal upp 5) \<le> 1 \<and>
   (low \<le> upp \<and> low \<le> 1 \<and> 1 / 10000 \<le> floor_decimal upp 5 \<longrightarrow>
      max (1 / 10000) (floor_decimal low 5) \<le> min 1 (floor_decimal upp 5))"
  using clamped_bounds_ordered [of low upp] by simp

text \<open>
  Claim C5, as stated: every emitted interval satisfies \<open>0 \<le> lb \<le> ub \<le> 1\<close>. It fails for
  the deadlock interval of the interval mode when no sample can leave the partition and
  the table is tight: with 100000 samples in one cluster inside a region and the table
  row \<open>memory[0] = (0.999954, 1)\<close>, the deadlock bounds before rounding are 0 and
  \<open>1 - 0.999954 = 0.000046\<close>; the upper one is floored to 0.00004, the lower one is
  raised to the minimum probability 0.0001, and the interval reads \<open>[0.0001,0.00004]\<close>.
\<close>

theorem reported_interval_order_counterexample:
  "map_sum id rd_deadlock_interval
     (computeScenarioBounds_error 100000 (1/100) {} {} hd [3]
        ((999954/1000000, 1) # replicate 100000 (0, 1))
        [\<lparr>cr_value = 100000, cr_imin = [1], cr_imax = [1], cr_iMin = [1], cr_iMax = [1]\<rparr>])
   = Inr (1/10000, 4/100000) \<and> \<not> (1/10000 :: real) \<le> 4/100000"
proof -
  let ?b = "error_bounds_of 100000 (1/100) {} {} hd [3] ((999954/1000000, 1) # replicate 100000 (0, 1))
        [\<lparr>cr_value = 100000, cr_imin = [1], cr_imax = [1], cr_iMin = [1], cr_iMax = [1]\<rparr>]"
  from inner_cluster_bounds obtain b where b: "?b = Inr b"
    and low: "eb_deadlock_low b = 0" and upp: "eb_deadlock_upp b = 46/1000000"
    by (cases ?b) auto
  have "rd_deadlock_interval (error_report b) = (1/10000, 4/100000)"
    by (simp add: error_report_def low upp floor_decimal_def np_round_def round_half_even_def)
  then show ?thesis unfolding computeScenarioBounds_error_def b by simp
qed

text \<open>
  Claim C5, amended: in both modes every emitted interval, the deadlock interval included,
  has a lower bound of at least the minimum probability 0.0001 (so above 0) and an upper
  bound of at most 1; and \<open>lb \<le> ub\<close> holds whenever the bounds before rounding satisfy
  \<open>low \<le> upp\<close> and \<open>low \<le> 1\<close> and the floored upper bound is at least 0.0001. Here
  \<open>raw\<close> lists the bounds before rounding, the deadlock pair first.
\<close>

theorem reported_intervals_in_range:
  assumes "(computeScenarioBounds_sparse Nsamples c_tuple memory centers = Inr res \<and>
            sparse_bounds_of Nsamples c_tuple memory centers = Inr sb \<and>
            raw = (sp_deadlock_low sb, sp_deadlock_upp sb) #
                    zip (sp_probability_low sb) (sp_probability_upp sb)) \<or>
           (computeScenarioBounds_error Nsamples confidence goal_idx critical_idx R_idx nrPerDim
              memory rows = Inr res \<and>
            error_bounds_of Nsamples confidence goal_idx critical_idx R_idx nrPerDim
              memory rows = Inr eb \<and>
            raw = (eb_deadlock_low eb, eb_deadlock_upp eb) #
                    zip (eb_probability_low eb) (eb_probability_upp eb))"
  shows "length (rd_deadlock_interval res # rd_intervals res) = length raw \<and>
     (\<forall>i<length raw.
        1 / 10000 \<le> fst ((rd_deadlock_interval res # rd_intervals res) ! i) \<and>
        snd ((rd_deadlock_interval res # rd_intervals res) ! i) \<le> 1 \<and>
        (fst (raw ! i) \<le> snd (raw ! i) \<and> fst (raw ! i) \<le> 1 \<and>
         1 / 10000 \<le> floor_decimal (snd (raw ! i)) 5 \<longrightarrow>
           fst ((rd_deadlock_interval res # rd_intervals res) ! i)
             \<le> snd ((rd_deadlock_interval res # rd_intervals res) ! i)))"
proof -
  have "\<exists>g. rd_deadlock_interval res # rd_intervals res = map g raw \<and>
     (\<forall>p. 1 / 10000 \<le> fst (g p) \<and> snd (g p) \<le> 1 \<and>
        (fst p \<le> snd p \<and> fst p \<le> 1 \<and> 1 / 10000 \<le> floor_decimal (snd p) 5 \<longrightarrow>
           fst (g p) \<le> snd (g p)))"
    using assms
  proof
    assume a: "computeScenarioBounds_sparse Nsamples c_tuple memory centers = Inr res \<and>
            sparse_bounds_of Nsamples c_tuple memory centers = Inr sb \<and>
            raw = (sp_deadlock_low sb, sp_deadlock_upp sb) #
                    zip (sp_probability_low sb) (sp_probability_upp sb)"
    then have res: "res = sparse_report sb" by (auto simp: computeScenarioBounds_sparse_def)
    let ?g = "\<lambda>p::real \<times> real. (floor_decimal (max (1 / 10000) (floor_decimal (fst p) 5)) 5,
               floor_decimal (min 1 (floor_decimal (snd p) 5)) 5)"
    have m: "rd_deadlock_interval res # rd_intervals res = map ?g raw"
      using a unfolding res sparse_report_intervals by simp
    have f: "1 / 10000 \<le> fst (?g p) \<and> snd (?g p) \<le> 1 \<and>
        (fst p \<le> snd p \<and> fst p \<le> 1 \<and> 1 / 10000 \<le> floor_decimal (snd p) 5 \<longrightarrow>
           fst (?g p) \<le> snd (?g p))" for p
      using sparse_interval_facts [of "fst p" "snd p"] unfolding fst_conv snd_conv by blast
    show ?thesis
      apply (rule exI [of _ ?g])
      apply (rule conjI)
       apply (rule m)
      apply (rule allI)
      apply (rule f)
      done
  next
    assume a: "computeScenarioBounds_error Nsamples confidence goal_idx critical_idx R_idx nrPerDim
              memory rows = Inr res \<and>
            error_bounds_of Nsamples confidence goal_idx critical_idx R_idx nrPerDim
              memory rows = Inr eb \<and>
            raw = (eb_deadlock_low eb, eb_deadlock_upp eb) #
                    zip (eb_probability_low eb) (eb_probability_upp eb)"
    then have res: "res = error_report eb" by (auto simp: computeScenarioBounds_error_def)
    let ?g = "\<lambda>p::real \<times> real. (max (1 / 10000) (floor_decimal (fst p) 5),
               min 1 (floor_decimal (snd p) 5))"
    have m: "rd_deadlock_interval res # rd_intervals res = map ?g raw"
      using a unfolding res error_report_intervals by simp
    have f: "1 / 10000 \<le> fst (?g p) \<and> snd (?g p) \<le> 1 \<and>
        (fst p \<le> snd p \<and> fst p \<le> 1 \<and> 1 / 10000 \<le> floor_decimal (snd p) 5 \<longrightarrow>
           fst (?g p) \<le> snd (?g p))" for p
      using error_interval_facts [of "fst p" "snd p"] unfolding fst_conv snd_conv by blast
    show ?thesis
      apply (rule exI [of _ ?g])
      apply (rule conjI)
       apply (rule m)
      apply (rule allI)
      apply (rule f)
      done
  qed
  then obtain g where m: "rd_deadlock_interval res # rd_intervals res = map g raw"
    and g: "\<forall>p. 1 / 10000 \<le> fst (g p) \<and> snd (g p) \<le> 1 \<and>
        (fst p \<le> snd p \<and> fst p \<le> 1 \<and> 1 / 10000 \<le> floor_decimal (snd p) 5 \<longrightarrow>
           fst (g p) \<le> snd (g p))"
    by (elim exE conjE) (rule that; assumption)
  have len: "length (rd_deadlock_interval res # rd_intervals res) = length raw"
    unfolding m by simp
  have each: "1 / 10000 \<le> fst ((rd_deadlock_interval res # rd_intervals res) ! i) \<and>
        snd ((rd_deadlock_interval res # rd_intervals res) ! i) \<le> 1 \<and>
        (fst (raw ! i) \<le> snd (raw ! i) \<and> fst (raw ! i) \<le> 1 \<and>
         1 / 10000 \<le> floor_decimal (snd (raw ! i)) 5 \<longrightarrow>
           fst ((rd_deadlock_interval res # rd_intervals res) ! i)
             \<le> snd ((rd_deadlock_interval res # rd_intervals res) ! i))"
    if i: "i < length raw" for i
  proof -
    have e: "(rd_deadlock_interval res # rd_intervals res) ! i = g (raw ! i)"
      unfolding m using i by simp
    show ?thesis unfolding e by (rule g [rule_format])
  qed
  from len each show ?thesis by blast
qed

theorem reported_intervals_in_range_witness:
  "error_bounds_of 100000 (1/100) {} {} hd [3] ((999954/1000000, 1) # replicate 100000 (0, 1))
      [\<lparr>cr_value = 100000, cr_imin = [1], cr_imax = [1], cr_iMin = [1], cr_iMax = [1]\<rparr>]
     = Inr (projr (error_bounds_of 100000 (1/100) {} {} hd [3]
         ((999954/1000000, 1) # replicate 100000 (0, 1))
         [\<lparr>cr_value = 100000, cr_imin = [1], cr_imax = [1], cr_iMin = [1], cr_iMax = [1]\<rparr>])) \<and>
   computeScenarioBounds_error 100000 (1/100) {} {} hd [3]
      ((999954/1000000, 1) # replicate 100000 (0, 1))
      [\<lparr>cr_value = 100000, cr_imin = [1], cr_imax = [1], cr_iMin = [1], cr_iMax = [1]\<rparr>]
     = Inr (error_report (projr (error_bounds_of 100000 (1/100) {} {} hd [3]
         ((999954/1000000, 1) # replicate 100000 (0, 1))
         [\<lparr>cr_value = 100000, cr_imin = [1], cr_imax = [1], cr_iMin = [1], cr_iMax = [1]\<rparr>]))) \<and>
   rd_intervals (error_report (projr (error_bounds_of 100000 (1/100) {} {} hd [3]
         ((999954/1000000, 1) # replicate 100000 (0, 1))
         [\<lparr>cr_value = 100000, cr_imin = [1], cr_imax = [1], cr_iMin = [1], cr_iMax = [1]\<rparr>])))
     = [(99995/100000, 1)] \<and>
   (1/10000 :: real) \<le> 99995/100000 \<and> (99995/100000 :: real) \<le> 1"
proof -
  let ?X = "error_bounds_of 100000 (1/100) {} {} hd [3]
      ((999954/1000000, 1) # replicate 100000 (0, 1))
      [\<lparr>cr_value = 100000, cr_imin = [1], cr_imax = [1], cr_iMin = [1], cr_iMax = [1]\<rparr>]"
  let ?Y = "computeScenarioBounds_error 100000 (1/100) {} {} hd [3]
      ((999954/1000000, 1) # replicate 100000 (0, 1))
      [\<lparr>cr_value = 100000, cr_imin = [1], cr_imax = [1], cr_iMin = [1], cr_iMax = [1]\<rparr>]"
  from inner_cluster_bounds obtain b where b: "?X = Inr b"
    and dl: "eb_deadlock_low b = 0" and du: "eb_deadlock_upp b = 46/1000000"
    and pl: "eb_probability_low b = [999954/1000000]" and pu: "eb_probability_upp b = [1]"
    by (cases ?X) auto
  have pb: "projr ?X = b" unfolding b by simp
  have run: "?Y = Inr (error_report b)" unfolding computeScenarioBounds_error_def b by simp
  have raw: "[(0, 46/1000000), (999954/1000000, 1)] =
      (eb_deadlock_low b, eb_deadlock_upp b) # zip (eb_probability_low b) (eb_probability_upp b)"
    by (simp add: dl du pl pu)
  have hyp: "?Y = Inr (error_report b) \<and> ?X = Inr b \<and>
      [(0, 46/1000000), (999954/1000000, 1)] =
      (eb_deadlock_low b, eb_deadlock_upp b) # zip (eb_probability_low b) (eb_probability_upp b)"
    by (intro conjI run b raw)
  have ivs: "rd_intervals (error_report b) = [(99995/100000, 1)]"
    by (simp add: error_report_def pl pu floor_decimal_def np_round_def round_half_even_def)
  have one: "1 < length [(0, 46/1000000), (999954/1000000, 1 :: real)]" by simp
  note T = reported_intervals_in_range [OF disjI2, OF hyp, THEN conjunct2, rule_format, OF one]
  have nth1: "(rd_deadlock_interval (error_report b) # rd_intervals (error_report b)) ! 1
      = (99995/100000, 1)"
    unfolding ivs by simp
  have lo: "(1/10000 :: real) \<le> 99995/100000"
    using T [THEN conjunct1] unfolding nth1 by simp
  have hi: "(99995/100000 :: real) \<le> 1"
    using T [THEN conjunct2, THEN conjunct2] unfolding nth1 by simp
  have b': "?X = Inr (projr ?X)" unfolding pb by (rule b)
  have run': "?Y = Inr (error_report (projr ?X))" unfolding pb by (rule run)
  have ivs': "rd_intervals (error_report (projr ?X)) = [(99995/100000, 1)]"
    unfolding pb by (rule ivs)
  show ?thesis by (intro conjI b' run' ivs' lo hi)
qed

section \<open>Properties of the interval mode\<close>

lemma epsilon_formula:
  "epsilon Nsamples confidence = sqrt (ln (2 / confidence) / (2 * of_int Nsamples))"
  by (simp add: epsilon_def)

lemma collect_Inr_nth:
  "collect xs = Inr ys \<Longrightarrow> map Inr ys = xs"
proof (induction xs arbitrary: ys)
  case Nil
  then show ?case by simp
next
  case (Cons x xs)
  then show ?case by (cases x) (auto split: sum.splits)
qed

text \<open>
  A run of the interval mode with two samples, each a cluster of its own, in the regions
  0 and 1 of a one-dimensional partition of three regions, at confidence 0.01.
\<close>

lemma epsilon_two_samples: "1 / 2 \<le> epsilon 2 (1 / 100)"
proof -
  have "exp (1::real) \<le> 200" using exp_le by linarith
  then have "1 \<le> ln (200::real)" by (simp add: ln_ge_iff)
  then have "1 / 4 \<le> 1 / (2 * real_of_int 2) * ln (2 / (1 / 100))" by simp
  then have "sqrt (1 / 4) \<le> sqrt (1 / (2 * real_of_int 2) * ln (2 / (1 / 100)))"
    by (rule real_sqrt_le_mono)
  moreover have "sqrt (1 / 4) = 1 / 2" by (simp add: real_sqrt_divide)
  ultimately show ?thesis by (simp add: epsilon_def)
qed

lemma two_cluster_masks:
  "in_single_region [3]
     \<lparr>cr_value = 1, cr_imin = [0], cr_imax = [0], cr_iMin = [0], cr_iMax = [0]\<rparr> = True"
  "in_single_region [3]
     \<lparr>cr_value = 1, cr_imin = [1], cr_imax = [1], cr_iMin = [1], cr_iMax = [1]\<rparr> = True"
  "fully_out [3]
     \<lparr>cr_value = 1, cr_imin = [0], cr_imax = [0], cr_iMin = [0], cr_iMax = [0]\<rparr> = False"
  "fully_out [3]
     \<lparr>cr_value = 1, cr_imin = [1], cr_imax = [1], cr_iMin = [1], cr_iMax = [1]\<rparr> = False"
  "partially_out [3]
     \<lparr>cr_value = 1, cr_imin = [0], cr_imax = [0], cr_iMin = [0], cr_iMax = [0]\<rparr> = False"
  "partially_out [3]
     \<lparr>cr_value = 1, cr_imin = [1], cr_imax = [1], cr_iMin = [1], cr_iMax = [1]\<rparr> = False"
  "keep [3]
     \<lparr>cr_value = 1, cr_imin = [0], cr_imax = [0], cr_iMin = [0], cr_iMax = [0]\<rparr> = False"
  "keep [3]
     \<lparr>cr_value = 1, cr_imin = [1], cr_imax = [1], cr_iMin = [1], cr_iMax = [1]\<rparr> = False"
  by (simp_all add: in_single_region_def fully_out_def partially_out_def keep_def)

lemma two_cluster_bounds:
  "map_sum id (\<lambda>b. (eb_counts b, eb_probability_low b, eb_probability_upp b))
     (error_bounds_of 2 (1/100) {} {} hd [3] [(1/10, 1), (1/100, 99/100), (0, 9/10)]
        [\<lparr>cr_value = 1, cr_imin = [0], cr_imax = [0], cr_iMin = [0], cr_iMax = [0]\<rparr>,
         \<lparr>cr_value = 1, cr_imin = [1], cr_imax = [1], cr_iMin = [1], cr_iMax = [1]\<rparr>])
   = Inr ([(0, 1, 1), (1, 1, 1)], [1/100, 1/100], [1, 1])"
  using epsilon_two_samples
  by (simp add: error_bounds_of_def classify_def two_cluster_masks mask_select_def
        enumerate_eq_zip nd_index_def counts_table_def all_indices_3 memory_at_def)

text \<open>
  Claim C3, as stated: the Hoeffding term replaces the table lookup for the upper bound
  only above a safety bound on the number of clusters, and below it the upper bound comes
  from the table. It fails: with just two samples in two clusters, each hitting its region
  once, the upper bound of both regions is \<open>min(1, 1/2 + epsilon) = 1\<close>, while the table
  row for one discarded sample has the upper bound 0.99.
\<close>

theorem upper_bound_from_table_counterexample:
  "map_sum id eb_probability_upp
     (error_bounds_of 2 (1/100) {} {} hd [3] [(1/10, 1), (1/100, 99/100), (0, 9/10)]
        [\<lparr>cr_value = 1, cr_imin = [0], cr_imax = [0], cr_iMin = [0], cr_iMax = [0]\<rparr>,
         \<lparr>cr_value = 1, cr_imin = [1], cr_imax = [1], cr_iMin = [1], cr_iMax = [1]\<rparr>])
     = Inr [1, 1] \<and>
   map_sum id snd (memory_at [(1/10, 1), (1/100, 99/100), (0, 9/10)] (2 - 1)) = Inr (99/100) \<and>
   (1::real) \<noteq> 99/100"
proof -
  let ?X = "error_bounds_of 2 (1/100) {} {} hd [3] [(1/10, 1), (1/100, 99/100), (0, 9/10)]
        [\<lparr>cr_value = 1, cr_imin = [0], cr_imax = [0], cr_iMin = [0], cr_iMax = [0]\<rparr>,
         \<lparr>cr_value = 1, cr_imin = [1], cr_imax = [1], cr_iMin = [1], cr_iMax = [1]\<rparr>]"
  from two_cluster_bounds obtain b where b: "?X = Inr b" and u: "eb_probability_upp b = [1, 1]"
    by (cases ?X) auto
  have "map_sum id eb_probability_upp ?X = Inr [1, 1]" unfolding b using u by simp
  moreover have "map_sum id snd (memory_at [(1/10, 1), (1/100, 99/100), (0, 9/10)] (2 - 1))
      = Inr (99/100 :: real)"
    by (simp add: memory_at_def)
  ultimately show ?thesis by simp
qed

text \<open>
  Claim C3, amended: in interval mode the upper probability bound of every successor row
  is \<open>min(1, counts_upp / Nsamples + epsilon)\<close> with the Hoeffding term
  \<open>epsilon = sqrt(ln(2/confidence) / (2*Nsamples))\<close>, for any number of clusters and without
  reading the table; the table is read for the lower bounds (row
  \<open>min(Nsamples - counts_low, Nsamples)\<close>, first entry) and for the upper deadlock bound.
\<close>

theorem interval_mode_upper_bound_is_hoeffding:
  assumes "error_bounds_of Nsamples confidence goal_idx critical_idx R_idx nrPerDim memory rows
             = Inr b"
  shows "eb_probability_upp b =
           map (\<lambda>(s, cl, cu). min 1 (of_int cu / of_int Nsamples
                  + sqrt (ln (2 / confidence) / (2 * of_int Nsamples)))) (eb_counts b) \<and>
         map Inr (eb_probability_low b) =
           map (\<lambda>(s, cl, cu). map_sum id fst (memory_at memory (min (Nsamples - cl) Nsamples)))
             (eb_counts b) \<and>
         (\<exists>st. classify goal_idx critical_idx nrPerDim rows = Inr st \<and>
            Inr (eb_deadlock_upp b) =
              map_sum id (\<lambda>m. 1 - fst m) (memory_at memory (counts_absorb_upp st)))"
proof -
  from assms obtain st m ms where
    st: "classify goal_idx critical_idx nrPerDim rows = Inr st"
    and m: "memory_at memory (counts_absorb_upp st) = Inr m"
    and ms: "collect (map (\<lambda>(s, cl, cu). memory_at memory (min (Nsamples - cl) Nsamples))
                (counts_table goal_idx critical_idx R_idx nrPerDim st)) = Inr ms"
    and b: "b = \<lparr>eb_counts = counts_table goal_idx critical_idx R_idx nrPerDim st,
                          eb_deadlock_low =
                            max 0 (of_int (counts_absorb_low st) / of_int Nsamples
                                     - epsilon Nsamples confidence),
                          eb_deadlock_upp = 1 - fst m,
                          eb_successor_idxs =
                            map fst (counts_table goal_idx critical_idx R_idx nrPerDim st),
                          eb_probability_low = map fst ms,
                          eb_probability_upp =
                            map (\<lambda>(s, cl, cu).
                                   min 1 (of_int cu / of_int Nsamples + epsilon Nsamples confidence))
                              (counts_table goal_idx critical_idx R_idx nrPerDim st),
                          eb_probability_approx =
                            map (\<lambda>(s, cl, cu). (of_int cl + of_int cu) / 2 / of_int Nsamples)
                              (counts_table goal_idx critical_idx R_idx nrPerDim st)\<rparr>"
    unfolding error_bounds_of_def by (auto split: if_splits sum.splits)
  have upp: "eb_probability_upp b =
           map (\<lambda>(s, cl, cu). min 1 (of_int cu / of_int Nsamples
                  + sqrt (ln (2 / confidence) / (2 * of_int Nsamples)))) (eb_counts b)"
    unfolding b by (simp add: epsilon_formula)
  from collect_Inr_nth [OF ms]
  have "map Inr ms = map (\<lambda>(s, cl, cu). memory_at memory (min (Nsamples - cl) Nsamples))
                (counts_table goal_idx critical_idx R_idx nrPerDim st)" .
  then have "map (map_sum id fst) (map Inr ms) =
      map (map_sum id fst) (map (\<lambda>(s, cl, cu). memory_at memory (min (Nsamples - cl) Nsamples))
                (counts_table goal_idx critical_idx R_idx nrPerDim st))"
    by simp
  then have low: "map Inr (eb_probability_low b) =
           map (\<lambda>(s, cl, cu). map_sum id fst (memory_at memory (min (Nsamples - cl) Nsamples)))
             (eb_counts b)"
    unfolding b by (simp add: comp_def case_prod_beta)
  have dead: "Inr (eb_deadlock_upp b) =
      map_sum id (\<lambda>m. 1 - fst m) (memory_at memory (counts_absorb_upp st))"
    unfolding b m by simp
  from upp low st dead show ?thesis by blast
qed

theorem interval_mode_upper_bound_is_hoeffding_witness:
  "error_bounds_of 2 (1/100) {} {} hd [3] [(1/10, 1), (1/100, 99/100), (0, 9/10)]
        [\<lparr>cr_value = 1, cr_imin = [0], cr_imax = [0], cr_iMin = [0], cr_iMax = [0]\<rparr>,
         \<lparr>cr_value = 1, cr_imin = [1], cr_imax = [1], cr_iMin = [1], cr_iMax = [1]\<rparr>]
     = Inr (projr (error_bounds_of 2 (1/100) {} {} hd [3] [(1/10, 1), (1/100, 99/100), (0, 9/10)]
        [\<lparr>cr_value = 1, cr_imin = [0], cr_imax = [0], cr_iMin = [0], cr_iMax = [0]\<rparr>,
         \<lparr>cr_value = 1, cr_imin = [1], cr_imax = [1], cr_iMin = [1], cr_iMax = [1]\<rparr>])) \<and>
   eb_probability_upp (projr (error_bounds_of 2 (1/100) {} {} hd [3]
        [(1/10, 1), (1/100, 99/100), (0, 9/10)]
        [\<lparr>cr_value = 1, cr_imin = [0], cr_imax = [0], cr_iMin = [0], cr_iMax = [0]\<rparr>,
         \<lparr>cr_value = 1, cr_imin = [1], cr_imax = [1], cr_iMin = [1], cr_iMax = [1]\<rparr>]))
     = map (\<lambda>(s, cl, cu). min 1 (real_of_int cu / real_of_int 2
                  + sqrt (ln (2 / (1/100)) / (2 * real_of_int 2))))
         ([(0, 1, 1), (1, 1, 1)] :: (int \<times> int \<times> int) list)"
proof -
  let ?X = "error_bounds_of 2 (1/100) {} {} hd [3] [(1/10, 1), (1/100, 99/100), (0, 9/10)]
        [\<lparr>cr_value = 1, cr_imin = [0], cr_imax = [0], cr_iMin = [0], cr_iMax = [0]\<rparr>,
         \<lparr>cr_value = 1, cr_imin = [1], cr_imax = [1], cr_iMin = [1], cr_iMax = [1]\<rparr>]"
  from two_cluster_bounds obtain b where b: "?X = Inr b"
    and c: "eb_counts b = [(0, 1, 1), (1, 1, 1)]"
    by (cases ?X) auto
  have pb: "projr ?X = b" unfolding b by simp
  have b': "?X = Inr (projr ?X)" unfolding pb by (rule b)
  note T = interval_mode_upper_bound_is_hoeffding [OF b', THEN conjunct1]
  have u: "eb_probability_upp (projr ?X)
     = map (\<lambda>(s, cl, cu). min 1 (real_of_int cu / real_of_int 2
                  + sqrt (ln (2 / (1/100)) / (2 * real_of_int 2))))
         ([(0, 1, 1), (1, 1, 1)] :: (int \<times> int \<times> int) list)"
    using T unfolding pb c .
  show ?thesis by (intro conjI b' u)
qed

section \<open>What the exact mode reports\<close>






section \<open>Properties of the re-import\<close>

lemma policy_entry_missing: "policy_entry (fillna None) = Inr (- 1)"
  by (simp add: policy_entry_def fillna_def)

lemma policy_entry_example:
  "policy_entry (fillna (Some (Text ''a_12''))) = Inr 12"
  "policy_entry (fillna (Some (Text ''a_3''))) = Inr 3"
  by (simp_all add: policy_entry_def fillna_def py_int_def strip_def is_space_def
        digits_value_def is_digit_def)

text \<open>
  Claim C9. When \<open>loadPRISMresults\<close> returns: the rewards are the values of the vector
  file after its first three rows, each replaced by 1 minus itself when the problem type
  is set; the policy has as many rows as the policy table, in reverse order (row \<open>i\<close> of the
  result comes from row \<open>n - 1 - i\<close> of the file); column \<open>j\<close> of the result comes from
  column \<open>j + 3\<close> of the file; an empty cell gives the sentinel -1, and every other cell gives
  its action number as \<open>policy_entry\<close> reads it.
\<close>

theorem loadPRISMresults_layout:
  assumes "loadPRISMresults problem_type policy_file vector_file = Inr res"
  shows "optimal_reward res =
           map (\<lambda>v. if problem_type then 1 - v else v) (concat (drop 3 vector_file)) \<and>
         length (optimal_policy res) = length policy_file \<and>
         (\<forall>i<length policy_file.
            length (optimal_policy res ! i)
              = length (policy_file ! (length policy_file - 1 - i)) - 3 \<and>
            (\<forall>j<length (optimal_policy res ! i).
               Inr (optimal_policy res ! i ! j) =
                 policy_entry (fillna (policy_file ! (length policy_file - 1 - i) ! (j + 3))) \<and>
               (policy_file ! (length policy_file - 1 - i) ! (j + 3) = None \<longrightarrow>
                  optimal_policy res ! i ! j = - 1)))"
proof -
  let ?all = "rev (map (\<lambda>row. map fillna (drop 3 row)) policy_file)"
  from assms obtain policy where
    pol: "collect (map (\<lambda>row. collect (map policy_entry row)) ?all) = Inr policy"
    and res: "res = \<lparr>optimal_policy = policy,
               optimal_reward =
                 (if problem_type then map (\<lambda>v. 1 - v) (concat (drop 3 vector_file))
                  else concat (drop 3 vector_file))\<rparr>"
    unfolding loadPRISMresults_def by (auto split: sum.splits)
  have reward: "optimal_reward res =
           map (\<lambda>v. if problem_type then 1 - v else v) (concat (drop 3 vector_file))"
    unfolding res by simp
  from collect_Inr_nth [OF pol]
  have rows: "map Inr policy = map (\<lambda>row. collect (map policy_entry row)) ?all" .
  have len: "length policy = length policy_file"
    using arg_cong [OF rows, of length] by simp
  have each: "length (policy ! i) = length (policy_file ! (length policy_file - 1 - i)) - 3 \<and>
            (\<forall>j<length (policy ! i).
               Inr (policy ! i ! j) =
                 policy_entry (fillna (policy_file ! (length policy_file - 1 - i) ! (j + 3))) \<and>
               (policy_file ! (length policy_file - 1 - i) ! (j + 3) = None \<longrightarrow>
                  policy ! i ! j = - 1))"
    if i: "i < length policy_file" for i
  proof -
    let ?src = "policy_file ! (length policy_file - 1 - i)"
    have at: "?all ! i = map fillna (drop 3 ?src)"
      using i by (simp add: rev_nth)
    have "Inr (policy ! i) = collect (map policy_entry (?all ! i))"
      using arg_cong [OF rows, of "\<lambda>xs. xs ! i"] i len by simp
    then have "collect (map policy_entry (map fillna (drop 3 ?src))) = Inr (policy ! i)"
      unfolding at by simp
    from collect_Inr_nth [OF this]
    have cells: "map Inr (policy ! i) = map policy_entry (map fillna (drop 3 ?src))" .
    have l: "length (policy ! i) = length ?src - 3"
      using arg_cong [OF cells, of length] by simp
    have c: "Inr (policy ! i ! j) = policy_entry (fillna (?src ! (j + 3))) \<and>
               (?src ! (j + 3) = None \<longrightarrow> policy ! i ! j = - 1)"
      if j: "j < length (policy ! i)" for j
    proof -
      have e: "Inr (policy ! i ! j) = policy_entry (fillna (?src ! (j + 3)))"
        using arg_cong [OF cells, of "\<lambda>xs. xs ! j"] j l by (simp add: add.commute)
      moreover have "policy ! i ! j = - 1" if "?src ! (j + 3) = None"
        using e that by (simp add: policy_entry_missing)
      ultimately show ?thesis by blast
    qed
    from l c show ?thesis by blast
  qed
  have p: "optimal_policy res = policy" unfolding res by simp
  show ?thesis unfolding p using reward len each by blast
qed

theorem loadPRISMresults_layout_witness:
  "loadPRISMresults True
      [[Some (Text ''k''), Some (Text ''x''), Some (Text ''y''), Some (Text ''a_12''), None],
       [Some (Text ''k''), Some (Text ''x''), Some (Text ''y''), None, Some (Text ''a_3'')]]
      [[0], [0], [0], [1/4], [1]]
     = Inr \<lparr>optimal_policy = [[- 1, 3], [12, - 1]], optimal_reward = [3/4, 0]\<rparr> \<and>
   optimal_reward \<lparr>optimal_policy = [[- 1, 3], [12, - 1]], optimal_reward = [3/4, 0]\<rparr>
     = map (\<lambda>v. if True then 1 - v else v) (concat (drop 3 [[0], [0], [0], [1/4], [1]])) \<and>
   length (optimal_policy \<lparr>optimal_policy = [[- 1, 3], [12, - 1]], optimal_reward = [3/4, 0]\<rparr>)
     = length [[Some (Text ''k''), Some (Text ''x''), Some (Text ''y''), Some (Text ''a_12''), None],
       [Some (Text ''k''), Some (Text ''x''), Some (Text ''y''), None, Some (Text ''a_3'')]]"
proof -
  have run: "loadPRISMresults True
      [[Some (Text ''k''), Some (Text ''x''), Some (Text ''y''), Some (Text ''a_12''), None],
       [Some (Text ''k''), Some (Text ''x''), Some (Text ''y''), None, Some (Text ''a_3'')]]
      [[0], [0], [0], [1/4], [1]]
     = Inr \<lparr>optimal_policy = [[- 1, 3], [12, - 1]], optimal_reward = [3/4, 0]\<rparr>"
    by (simp add: loadPRISMresults_def policy_entry_missing policy_entry_example)
  note T = loadPRISMresults_layout [OF run]
  from run T [THEN conjunct1] T [THEN conjunct2, THEN conjunct1]
  show ?thesis by (intro conjI)
qed

section \<open>Properties of the enabled actions\<close>

lemma fold_grows:
  assumes "\<And>x e. e \<subseteq> f x e"
  shows "e \<subseteq> fold f xs e"
proof (induction xs arbitrary: e)
  case Nil
  then show ?case by simp
next
  case (Cons x xs)
  have "e \<subseteq> f x e" by (rule assms)
  also have "\<dots> \<subseteq> fold f xs (f x e)" by (rule Cons.IH)
  finally show ?case by simp
qed

lemma add_states_grows: "enabled \<subseteq> add_states critical states enabled"
  unfolding add_states_def by (rule fold_grows) auto

lemma compose_loop_facts:
  "compose_loop critical entries enabled_in nr_act = (composed, n) \<Longrightarrow>
   (\<forall>a. enabled_in a \<subseteq> composed a) \<and> nr_act \<le> n \<and> ((\<forall>a. composed a = {}) \<longrightarrow> n = nr_act)"
proof (induction entries arbitrary: enabled_in nr_act)
  case Nil
  then show ?case by simp
next
  case (Cons entry entries)
  obtain act_idx s_enabledin where e: "entry = (act_idx, s_enabledin)" by (cases entry)
  let ?set = "add_states critical s_enabledin (enabled_in act_idx)"
  let ?en = "enabled_in(act_idx := ?set)"
  let ?nr = "if ?set \<noteq> {} then nr_act + 1 else nr_act"
  from Cons.prems have run: "compose_loop critical entries ?en ?nr = (composed, n)"
    by (simp add: e)
  from Cons.IH [OF run]
  have sub: "\<forall>a. ?en a \<subseteq> composed a" and le: "?nr \<le> n"
    and zero: "(\<forall>a. composed a = {}) \<longrightarrow> n = ?nr"
    by blast+
  have grow: "enabled_in a \<subseteq> composed a" for a
  proof (cases "a = act_idx")
    case True
    with sub have "?set \<subseteq> composed a" by (metis fun_upd_same)
    with add_states_grows [of "enabled_in act_idx" critical s_enabledin] True
    show ?thesis by blast
  next
    case False
    with sub show ?thesis by (metis fun_upd_other)
  qed
  have "n = nr_act" if all: "\<forall>a. composed a = {}"
  proof -
    from sub have "?set \<subseteq> composed act_idx" by (metis fun_upd_same)
    with all have "?set = {}" by simp
    with zero all show ?thesis by simp
  qed
  moreover have "nr_act \<le> n" using le by (simp split: if_splits)
  ultimately show ?case using grow by blast
qed

lemma extra_loop_grows: "enabled_in a \<subseteq> extra_loop critical nr_regions lp_solve extra_act enabled_in a"
  unfolding extra_loop_def
proof (induction extra_act arbitrary: enabled_in)
  case Nil
  then show ?case by simp
next
  case (Cons act extra_act)
  let ?inner = "fold (\<lambda>s_min e. if s_min \<in> critical then e
                             else if lp_solve act s_min then insert s_min e else e)
               [0..<nr_regions] (enabled_in act)"
  have inner: "e \<subseteq> fold (\<lambda>s_min e. if s_min \<in> critical then e
                             else if lp_solve act s_min then insert s_min e else e) xs e"
    for xs and e :: "nat set"
    by (rule fold_grows) auto
  have "enabled_in a \<subseteq> (enabled_in(act := ?inner)) a"
    using inner [of "enabled_in act" "[0..<nr_regions]"] by auto
  also have "\<dots> \<subseteq> fold (\<lambda>act en. en(act :=
             fold (\<lambda>s_min e. if s_min \<in> critical then e
                             else if lp_solve act s_min then insert s_min e else e)
               [0..<nr_regions] (en act))) extra_act (enabled_in(act := ?inner)) a"
    by (rule Cons.IH)
  finally show ?case by (simp only: fold.simps o_apply)
qed

text \<open>
  Claim C8. If, after the composed and the extra actions have been enabled, no action is
  enabled in any region, then \<open>define_actions\<close> prints the count 0, prints the warning
  and ends the process with \<open>sys.exit()\<close>; the function has no other path from there
  (no retry).
\<close>

theorem no_enabled_action_is_fatal:
  assumes "\<forall>a. extra_loop critical nr_regions lp_solve extra_act
                 (fst (compose_loop critical entries enabled_in 0)) a = {}"
  shows "define_actions critical nr_regions entries lp_solve extra_act enabled_in =
           ([Actions_enabled 0, Warning ''No actions enabled at all, so terminate''],
            Inl SystemExit)"
proof -
  obtain composed n where run: "compose_loop critical entries enabled_in 0 = (composed, n)"
    by (cases "compose_loop critical entries enabled_in 0")
  have "composed a = {}" for a
    using assms extra_loop_grows [of composed a critical nr_regions lp_solve extra_act]
    by (simp add: run)
  with compose_loop_facts [OF run] have "n = 0" by blast
  then show ?thesis by (simp add: define_actions_def run)
qed

theorem no_enabled_action_is_fatal_witness:
  "extra_loop {1} 2 (\<lambda>act s. False) [5]
      (fst (compose_loop {1} [(0, [1]), (3, [])] (\<lambda>a. {}) 0)) = (\<lambda>a. {}) \<and>
   define_actions {1} 2 [(0, [1]), (3, [])] (\<lambda>act s. False) [5] (\<lambda>a. {}) =
     ([Actions_enabled 0, Warning ''No actions enabled at all, so terminate''], Inl SystemExit)"
proof -
  have en: "extra_loop {1} 2 (\<lambda>act s. False) [5]
      (fst (compose_loop {1} [(0, [1]), (3, [])] (\<lambda>a. {}) 0)) = (\<lambda>a. {})"
    by (simp add: extra_loop_def add_states_def fun_eq_iff upt_rec)
  then have "\<forall>a. extra_loop {1} 2 (\<lambda>act s. False) [5]
      (fst (compose_loop {1} [(0, [1]), (3, [])] (\<lambda>a. {}) 0)) a = {}"
    by simp
  from no_enabled_action_is_fatal [OF this] en show ?thesis by (intro conjI)
qed

end
